theory Spec2Isabelle
  imports Complex_Main
begin

section \<open>Data model of \<^verbatim>\<open>speech/shared_detector.go\<close>\<close>

text \<open>
  The shared voice-activity detector: one \<^verbatim>\<open>SharedModel\<close> holds the inference session
  and the configuration, and every consumer drives a \<^verbatim>\<open>DetectorContext\<close> of its own.

  Conventions of the embedding.
  \<^item> A \<^verbatim>\<open>*SharedModel\<close> is an address; the store maps every address to the model
    found there, so that two contexts holding the same address see the same configuration.
    A nil pointer is \<open>None\<close>.
  \<^item> A \<^verbatim>\<open>*DetectorContext\<close> receiver is a \<open>DetectorContext option\<close> (nil is \<open>None\<close>);
    a method returns the context as it leaves it, since the code updates it in place.
  \<^item> Go's \<^verbatim>\<open>int\<close> is 64 bits wide on the platforms of the runtime. It is an \<open>int\<close>
    here, and every addition, subtraction and multiplication the code makes on the
    sample cursor, the pending end and the two sample counts is wrapped into
    \<open>-2\<^sup>6\<^sup>3 \<dots> 2\<^sup>6\<^sup>3 - 1\<close> by \<open>wrap64\<close>. The loop index stays between 0 and the length of
    the input, where nothing wraps.
  \<^item> A \<^verbatim>\<open>float32\<close> (a sample, a probability, the threshold) is the real number it
    denotes; infinities and NaN are left out. Comparisons are exact. The one
    \<^verbatim>\<open>float32\<close> operation of the code, \<^verbatim>\<open>Threshold-0.15\<close>, rounds twice: the constant to
    the nearest \<^verbatim>\<open>float32\<close>, and the difference to the nearest \<^verbatim>\<open>float32\<close>, ties to
    even (\<open>f32_round\<close>).
  \<^item> A time stamp is the \<^verbatim>\<open>float64\<close> quotient of two integers. It is read as the
    real quotient, which the code's value is up to the rounding of the one division
    while the two integers are below \<open>2\<^sup>5\<^sup>3\<close>.
  \<^item> The ONNX runtime is outside the program. A call of the session is a function of
    the window, the recurrent state and the sample rate that either fails with a message
    or returns the speech probability and the next recurrent state.
  \<^item> The read/write lock guards against concurrent callers; the embedding is of one
    caller at a time, where locking and unlocking change nothing.
\<close>

type_synonym addr = nat

record DetectorConfig =
  ModelPath :: string
  SampleRate :: int
  Threshold :: real
  MinSilenceDurationMs :: int
  SpeechPadMs :: int
  LogLevel :: int

text \<open>Of a \<^verbatim>\<open>SharedModel\<close> only the configuration is visible to the program; the
  remaining fields are handles of the runtime.\<close>

record SharedModel =
  cfg :: DetectorConfig

type_synonym store = "addr \<Rightarrow> SharedModel"

record DetectorContext =
  model :: "addr option"
  state :: "real list"
  ctx :: "real list"
  currSample :: int
  triggered :: bool
  tempEnd :: int

record Segment =
  SpeechStartAt :: real
  SpeechEndAt :: real

datatype error =
    InvalidNilDetectorContext
  | NotEnoughSamples
  | InferFailed error
  | UnexpectedSpeechEnd
  | InvalidDetectorContext
  | RuntimeFailure string

type_synonym Inferencer = "real list \<Rightarrow> real list \<Rightarrow> int \<Rightarrow> string + (real \<times> real list)"

text \<open>Modelled from the spec: the length of the recurrent state vector. The constant
  \<^verbatim>\<open>stateLen\<close> is declared in a file that is not among the sources; the specification
  gives the vector 256 elements, shaped 2 x 1 x 128.\<close>

definition stateLen :: nat where
  "stateLen = 256"

text \<open>The value a 64-bit signed integer holds after an operation whose exact result
  is \<open>x\<close>.\<close>

definition wrap64 :: "int \<Rightarrow> int" where
  "wrap64 x = (x + 2 ^ 63) mod 2 ^ 64 - 2 ^ 63"

text \<open>Integer division of Go truncates towards zero.\<close>

definition go_div :: "int \<Rightarrow> int \<Rightarrow> int" where
  "go_div a b = sgn a * sgn b * (\<bar>a\<bar> div \<bar>b\<bar>)"

text \<open>Rounding of a real number to \<^verbatim>\<open>float32\<close>. The exponent of \<open>x\<close> is the greatest
  \<open>e\<close> with \<open>2\<^sup>e \<le> \<bar>x\<bar>\<close>, searched downwards from 127 and not below -126, where the
  subnormal numbers begin; the neighbours of \<open>x\<close> are the multiples of \<open>2\<^sup>e\<^sup>-\<^sup>2\<^sup>3\<close>, and \<open>x\<close>
  goes to the nearest, to the one with an even multiplier when it is half way.\<close>

function f32_exponent_from :: "int \<Rightarrow> real \<Rightarrow> int" where
  "f32_exponent_from e x =
     (if e \<le> - 126 then - 126
      else if 2 powi e \<le> \<bar>x\<bar> then e
      else f32_exponent_from (e - 1) x)"
  by pat_completeness auto
termination
  by (relation "measure (\<lambda>(e, x). nat (e + 126))") auto

declare f32_exponent_from.simps [simp del]

definition round_half_even :: "real \<Rightarrow> int" where
  "round_half_even y =
     (let f = \<lfloor>y\<rfloor>; d = y - of_int f
      in if d < 1 / 2 then f
         else if 1 / 2 < d then f + 1
         else if even f then f else f + 1)"

definition f32_round :: "real \<Rightarrow> real" where
  "f32_round x =
     (let q = 2 powi (f32_exponent_from 127 x - 23)
      in of_int (round_half_even (x / q)) * q)"

text \<open>The real numbers that rounding leaves as they are; every finite \<^verbatim>\<open>float32\<close> is
  one.\<close>

definition is_float32 :: "real \<Rightarrow> bool" where
  "is_float32 x \<longleftrightarrow> f32_round x = x"

text \<open>The slice \<^verbatim>\<open>pcm[lo:hi]\<close>. The loops below only take slices with
  \<open>0 \<le> lo \<le> hi \<le> length pcm\<close>, where Go does not panic.\<close>

definition slice :: "'a list \<Rightarrow> int \<Rightarrow> int \<Rightarrow> 'a list" where
  "slice xs lo hi = take (nat (hi - lo)) (drop (nat lo) xs)"

text \<open>The window size the three scanning methods compute first: 512 samples, 256 at
  8 kHz.\<close>

definition windowSize :: "DetectorConfig \<Rightarrow> int" where
  "windowSize c = (if SampleRate c = 8000 then 256 else 512)"

text \<open>The value of the expression \<^verbatim>\<open>dc.model.cfg.Threshold-0.15\<close>, a \<^verbatim>\<open>float32\<close>
  subtraction whose second operand is the constant converted to \<^verbatim>\<open>float32\<close>.\<close>

definition off_threshold :: "DetectorConfig \<Rightarrow> real" where
  "off_threshold c = f32_round (Threshold c - f32_round 0.15)"

section \<open>Operations\<close>

text \<open>\<^verbatim>\<open>NewContext\<close>: a context bound to the model, every other field at Go's zero
  value. The length \<open>contextLen\<close> of the \<^verbatim>\<open>ctx\<close> array is a constant declared outside the
  sources, and is a parameter here.\<close>

definition NewContext :: "nat \<Rightarrow> addr option \<Rightarrow> DetectorContext" where
  "NewContext contextLen sm =
     \<lparr>model = sm, state = replicate stateLen 0, ctx = replicate contextLen 0,
      currSample = 0, triggered = False, tempEnd = 0\<rparr>"

definition GetConfig :: "store \<Rightarrow> addr \<Rightarrow> DetectorConfig" where
  "GetConfig st sm = cfg (st sm)"

text \<open>\<^verbatim>\<open>infer\<close> (shared_infer_linux.go): every failure returns before the recurrent state
  is overwritten; on success the state returned by the session replaces the context's.
  The receiver is never nil where the method is called, and the window it is passed is
  never empty.\<close>

definition infer :: "Inferencer \<Rightarrow> store \<Rightarrow> DetectorContext \<Rightarrow> real list \<Rightarrow> (error + real) \<times> DetectorContext" where
  "infer run st dc pcm =
     (case model dc of
        None \<Rightarrow> (Inl InvalidDetectorContext, dc)
      | Some a \<Rightarrow>
          (case run pcm (state dc) (SampleRate (cfg (st a))) of
             Inl msg \<Rightarrow> (Inl (RuntimeFailure msg), dc)
           | Inr (prob, stateN) \<Rightarrow> (Inr prob, dc\<lparr>state := stateN\<rparr>)))"

text \<open>The body of the loop of \<^verbatim>\<open>Detect\<close> after a successful inference: the cursor
  advances, then the three tests on the probability run in the order of the source. The
  \<^verbatim>\<open>continue\<close> of the source ends the iteration without an error; the error return leaves
  the context as the assignments before it made it.\<close>

definition detect_window :: "DetectorConfig \<Rightarrow> int \<Rightarrow> int \<Rightarrow> real \<Rightarrow> DetectorContext \<Rightarrow> Segment list \<Rightarrow> (error + Segment list) \<times> DetectorContext" where
  "detect_window c minSilenceSamples speechPadSamples speechProb dc segments =
     (let dc1 = dc\<lparr>currSample := wrap64 (currSample dc + windowSize c)\<rparr>;
          dc2 = (if speechProb \<ge> Threshold c \<and> tempEnd dc1 \<noteq> 0 then dc1\<lparr>tempEnd := 0\<rparr> else dc1);
          starts = (speechProb \<ge> Threshold c \<and> \<not> triggered dc2);
          speechStartAt = real_of_int (wrap64 (wrap64 (currSample dc2 - windowSize c) - speechPadSamples))
                            / real_of_int (SampleRate c);
          dc3 = (if starts then dc2\<lparr>triggered := True\<rparr> else dc2);
          segments3 = (if starts
                       then segments @ [\<lparr>SpeechStartAt = (if speechStartAt < 0 then 0 else speechStartAt), SpeechEndAt = 0\<rparr>]
                       else segments)
      in if speechProb < off_threshold c \<and> triggered dc3 then
           (let dc4 = (if tempEnd dc3 = 0 then dc3\<lparr>tempEnd := currSample dc3\<rparr> else dc3) in
            if wrap64 (currSample dc4 - tempEnd dc4) < minSilenceSamples then (Inr segments3, dc4)
            else
              (let speechEndAt = real_of_int (wrap64 (tempEnd dc4 + speechPadSamples))
                                   / real_of_int (SampleRate c);
                   dc5 = dc4\<lparr>tempEnd := 0, triggered := False\<rparr>
               in if length segments3 < 1 then (Inl UnexpectedSpeechEnd, dc5)
                  else (Inr (segments3[length segments3 - 1 :=
                               (segments3 ! (length segments3 - 1))\<lparr>SpeechEndAt := speechEndAt\<rparr>]), dc5)))
         else (Inr segments3, dc3))"

text \<open>The loop \<^verbatim>\<open>for i := 0; i < len(pcm)-windowSize; i += windowSize\<close> of \<^verbatim>\<open>Detect\<close>,
  from index \<open>i\<close> on. The configuration is read through the model's address at every
  use, as the source reads \<^verbatim>\<open>dc.model.cfg\<close>.\<close>

function detect_loop :: "Inferencer \<Rightarrow> store \<Rightarrow> addr \<Rightarrow> real list \<Rightarrow> int \<Rightarrow> int \<Rightarrow> int \<Rightarrow> DetectorContext \<Rightarrow> Segment list \<Rightarrow> (error + Segment list) \<times> DetectorContext" where
  "detect_loop run st a pcm minSilenceSamples speechPadSamples i dc segments =
     (if i < int (length pcm) - windowSize (cfg (st a)) then
        (case infer run st dc (slice pcm i (i + windowSize (cfg (st a)))) of
           (Inl err, dc1) \<Rightarrow> (Inl (InferFailed err), dc1)
         | (Inr speechProb, dc1) \<Rightarrow>
             (case detect_window (cfg (st a)) minSilenceSamples speechPadSamples speechProb dc1 segments of
                (Inl err, dc2) \<Rightarrow> (Inl err, dc2)
              | (Inr segments2, dc2) \<Rightarrow>
                  detect_loop run st a pcm minSilenceSamples speechPadSamples
                    (i + windowSize (cfg (st a))) dc2 segments2))
      else (Inr segments, dc))"
  by pat_completeness auto
termination
  by (relation "measure (\<lambda>(run, st, a, pcm, ms, sp, i, dc, segs).
        nat (int (length pcm) - windowSize (cfg (st a)) - i))")
     (auto simp: windowSize_def)

declare detect_loop.simps [simp del]

text \<open>\<^verbatim>\<open>Detect\<close>. The result is the value returned (the segments or the error), the
  context and the store as the call leaves them. The two sample counts are computed
  once, before the loop, each as a product that wraps, divided by 1000.\<close>

definition Detect :: "Inferencer \<Rightarrow> store \<Rightarrow> DetectorContext option \<Rightarrow> real list \<Rightarrow> (error + Segment list) \<times> DetectorContext option \<times> store" where
  "Detect run st dcp pcm =
     (case dcp of
        None \<Rightarrow> (Inl InvalidNilDetectorContext, None, st)
      | Some dc \<Rightarrow>
          (case model dc of
             None \<Rightarrow> (Inl InvalidNilDetectorContext, Some dc, st)
           | Some a \<Rightarrow>
               if int (length pcm) < windowSize (cfg (st a)) then (Inl NotEnoughSamples, Some dc, st)
               else
                 (let minSilenceSamples =
                        go_div (wrap64 (MinSilenceDurationMs (cfg (st a)) * SampleRate (cfg (st a)))) 1000;
                      speechPadSamples =
                        go_div (wrap64 (SpeechPadMs (cfg (st a)) * SampleRate (cfg (st a)))) 1000
                  in case detect_loop run st a pcm minSilenceSamples speechPadSamples 0 dc [] of
                       (r, dc') \<Rightarrow> (r, Some dc', st))))"

text \<open>\<^verbatim>\<open>Reset\<close>: the two loops write 0 to every element of the arrays
  \<^verbatim>\<open>[stateLen]float32\<close> and \<^verbatim>\<open>[contextLen]float32\<close>.\<close>

definition Reset :: "nat \<Rightarrow> DetectorContext option \<Rightarrow> error option \<times> DetectorContext option" where
  "Reset contextLen dcp =
     (case dcp of
        None \<Rightarrow> (Some InvalidNilDetectorContext, None)
      | Some dc \<Rightarrow>
          (None, Some (dc\<lparr>currSample := 0, triggered := False, tempEnd := 0,
                          state := replicate stateLen 0, ctx := replicate contextLen 0\<rparr>)))"

definition SetThreshold :: "store \<Rightarrow> DetectorContext option \<Rightarrow> real \<Rightarrow> store" where
  "SetThreshold st dcp v =
     (case dcp of
        None \<Rightarrow> st
      | Some dc \<Rightarrow>
          (case model dc of
             None \<Rightarrow> st
           | Some a \<Rightarrow> st(a := (st a)\<lparr>cfg := (cfg (st a))\<lparr>Threshold := v\<rparr>\<rparr>)))"

text \<open>The loop of \<^verbatim>\<open>IsSpeech\<close>, from index \<open>i\<close> on.\<close>

function isSpeech_loop :: "Inferencer \<Rightarrow> store \<Rightarrow> addr \<Rightarrow> real list \<Rightarrow> int \<Rightarrow> DetectorContext \<Rightarrow> (error + bool) \<times> DetectorContext" where
  "isSpeech_loop run st a pcm i dc =
     (if i < int (length pcm) - windowSize (cfg (st a)) then
        (case infer run st dc (slice pcm i (i + windowSize (cfg (st a)))) of
           (Inl err, dc1) \<Rightarrow> (Inl (InferFailed err), dc1)
         | (Inr speechProb, dc1) \<Rightarrow>
             (let dc2 = dc1\<lparr>currSample := wrap64 (currSample dc1 + windowSize (cfg (st a)))\<rparr>
              in if speechProb \<ge> Threshold (cfg (st a)) then (Inr True, dc2)
                 else isSpeech_loop run st a pcm (i + windowSize (cfg (st a))) dc2))
      else (Inr False, dc))"
  by pat_completeness auto
termination
  by (relation "measure (\<lambda>(run, st, a, pcm, i, dc).
        nat (int (length pcm) - windowSize (cfg (st a)) - i))")
     (auto simp: windowSize_def)

declare isSpeech_loop.simps [simp del]

text \<open>\<^verbatim>\<open>IsSpeech\<close>: the length test comes before the reset of the transient fields; the
  \<^verbatim>\<open>ctx\<close> array is not reset.\<close>

definition IsSpeech :: "Inferencer \<Rightarrow> store \<Rightarrow> DetectorContext option \<Rightarrow> real list \<Rightarrow> (error + bool) \<times> DetectorContext option \<times> store" where
  "IsSpeech run st dcp pcm =
     (case dcp of
        None \<Rightarrow> (Inl InvalidNilDetectorContext, None, st)
      | Some dc \<Rightarrow>
          (case model dc of
             None \<Rightarrow> (Inl InvalidNilDetectorContext, Some dc, st)
           | Some a \<Rightarrow>
               if int (length pcm) < windowSize (cfg (st a)) then (Inl NotEnoughSamples, Some dc, st)
               else
                 (let dc0 = dc\<lparr>currSample := 0, triggered := False, tempEnd := 0,
                               state := replicate stateLen 0\<rparr>
                  in case isSpeech_loop run st a pcm 0 dc0 of
                       (r, dc') \<Rightarrow> (r, Some dc', st))))"

text \<open>The loop of \<^verbatim>\<open>IsSpeechQuick\<close>: as above, and at most \<open>maxWindows\<close> windows.\<close>

function isSpeechQuick_loop :: "Inferencer \<Rightarrow> store \<Rightarrow> addr \<Rightarrow> real list \<Rightarrow> int \<Rightarrow> int \<Rightarrow> int \<Rightarrow> DetectorContext \<Rightarrow> (error + bool) \<times> DetectorContext" where
  "isSpeechQuick_loop run st a pcm maxWindows i windowCount dc =
     (if i < int (length pcm) - windowSize (cfg (st a)) \<and> windowCount < maxWindows then
        (case infer run st dc (slice pcm i (i + windowSize (cfg (st a)))) of
           (Inl err, dc1) \<Rightarrow> (Inl (InferFailed err), dc1)
         | (Inr speechProb, dc1) \<Rightarrow>
             (let dc2 = dc1\<lparr>currSample := wrap64 (currSample dc1 + windowSize (cfg (st a)))\<rparr>
              in if speechProb \<ge> Threshold (cfg (st a)) then (Inr True, dc2)
                 else isSpeechQuick_loop run st a pcm maxWindows
                        (i + windowSize (cfg (st a))) (windowCount + 1) dc2))
      else (Inr False, dc))"
  by pat_completeness auto
termination
  by (relation "measure (\<lambda>(run, st, a, pcm, mw, i, wc, dc).
        nat (int (length pcm) - windowSize (cfg (st a)) - i))")
     (auto simp: windowSize_def)

declare isSpeechQuick_loop.simps [simp del]

definition IsSpeechQuick :: "Inferencer \<Rightarrow> store \<Rightarrow> DetectorContext option \<Rightarrow> real list \<Rightarrow> int \<Rightarrow> (error + bool) \<times> DetectorContext option \<times> store" where
  "IsSpeechQuick run st dcp pcm maxWindows0 =
     (case dcp of
        None \<Rightarrow> (Inl InvalidNilDetectorContext, None, st)
      | Some dc \<Rightarrow>
          (case model dc of
             None \<Rightarrow> (Inl InvalidNilDetectorContext, Some dc, st)
           | Some a \<Rightarrow>
               if int (length pcm) < windowSize (cfg (st a)) then (Inl NotEnoughSamples, Some dc, st)
               else
                 (let maxWindows = (if maxWindows0 \<le> 0 then 5 else maxWindows0);
                      dc0 = dc\<lparr>currSample := 0, triggered := False, tempEnd := 0,
                               state := replicate stateLen 0\<rparr>
                  in case isSpeechQuick_loop run st a pcm maxWindows 0 0 dc0 of
                       (r, dc') \<Rightarrow> (r, Some dc', st))))"

section \<open>The probabilities along an input, and the segmentation engine on them\<close>

text \<open>The answers of the session on the windows that the loop header
  \<^verbatim>\<open>for i := 0; i < len(pcm)-windowSize; i += windowSize\<close> visits from index \<open>i\<close> on, the
  recurrent state threaded from one call to the next as \<^verbatim>\<open>infer\<close> does. The list ends with
  the first failure.\<close>

function window_outcomes :: "Inferencer \<Rightarrow> DetectorConfig \<Rightarrow> real list \<Rightarrow> int \<Rightarrow> real list \<Rightarrow> (string + real \<times> real list) list" where
  "window_outcomes run c pcm i s =
     (if i < int (length pcm) - windowSize c then
        (case run (slice pcm i (i + windowSize c)) s (SampleRate c) of
           Inl msg \<Rightarrow> [Inl msg]
         | Inr (prob, stateN) \<Rightarrow>
             Inr (prob, stateN) # window_outcomes run c pcm (i + windowSize c) stateN)
      else [])"
  by pat_completeness auto
termination
  by (relation "measure (\<lambda>(run, c, pcm, i, s). nat (int (length pcm) - windowSize c - i))")
     (auto simp: windowSize_def)

declare window_outcomes.simps [simp del]

text \<open>The probabilities alone: what a test that feeds a probability sequence fixes.\<close>

definition window_probs :: "Inferencer \<Rightarrow> DetectorConfig \<Rightarrow> real list \<Rightarrow> real list \<Rightarrow> (string + real) list" where
  "window_probs run c pcm s = map (map_sum (\<lambda>msg. msg) fst) (window_outcomes run c pcm 0 s)"

text \<open>The segmentation engine: the loop body of \<^verbatim>\<open>Detect\<close> folded over a list of
  answers. A failed inference and an unexpected speech end stop it, as they end the
  loop.\<close>

fun engine :: "DetectorConfig \<Rightarrow> int \<Rightarrow> int \<Rightarrow> (string + real \<times> real list) list \<Rightarrow> DetectorContext \<Rightarrow> Segment list \<Rightarrow> (error + Segment list) \<times> DetectorContext" where
  "engine c ms sp [] dc segs = (Inr segs, dc)"
| "engine c ms sp (Inl msg # rest) dc segs = (Inl (InferFailed (RuntimeFailure msg)), dc)"
| "engine c ms sp (Inr (p, s) # rest) dc segs =
     (case detect_window c ms sp p (dc\<lparr>state := s\<rparr>) segs of
        (Inl err, dc2) \<Rightarrow> (Inl err, dc2)
      | (Inr segs2, dc2) \<Rightarrow> engine c ms sp rest dc2 segs2)"

text \<open>The start time a segment receives when it is opened by the window that moves the
  cursor to \<open>n\<close>, as the code computes it.\<close>

definition start_bound :: "DetectorConfig \<Rightarrow> int \<Rightarrow> int \<Rightarrow> real" where
  "start_bound c sp n =
     max 0 (real_of_int (wrap64 (wrap64 (n - windowSize c) - sp)) / real_of_int (SampleRate c))"

text \<open>The same quotient without wrapping, and the invariant of the loop of \<^verbatim>\<open>Detect\<close> on
  the cursor \<open>n\<close>, the pending end \<open>te\<close> and the segments so far, for the runs on which
  nothing wraps.\<close>

definition start_limit :: "DetectorConfig \<Rightarrow> int \<Rightarrow> int \<Rightarrow> real" where
  "start_limit c sp n = max 0 (real_of_int (n - windowSize c - sp) / real_of_int (SampleRate c))"

definition seg_inv :: "DetectorConfig \<Rightarrow> int \<Rightarrow> int \<Rightarrow> int \<Rightarrow> Segment list \<Rightarrow> bool" where
  "seg_inv c sp n te segs \<longleftrightarrow>
     0 \<le> n \<and>
     (\<forall>s \<in> set segs. 0 \<le> SpeechStartAt s \<and> SpeechStartAt s \<le> start_limit c sp n \<and>
                      (SpeechEndAt s = 0 \<or> SpeechStartAt s < SpeechEndAt s)) \<and>
     sorted (map SpeechStartAt segs) \<and>
     (segs \<noteq> [] \<and> te \<noteq> 0 \<longrightarrow>
        0 < te \<and> te \<le> n \<and>
        SpeechStartAt (last segs) < real_of_int (te + sp) / real_of_int (SampleRate c))"

text \<open>The verdict of the loops of \<^verbatim>\<open>IsSpeech\<close> and \<^verbatim>\<open>IsSpeechQuick\<close> on a list of
  answers, for the threshold \<open>v\<close>: true at the first probability that reaches \<open>v\<close>, the
  error of a failed inference met before that, false when the list ends.\<close>

fun first_speech :: "real \<Rightarrow> (string + real \<times> real list) list \<Rightarrow> error + bool" where
  "first_speech v [] = Inr False"
| "first_speech v (Inl msg # rest) = Inl (InferFailed (RuntimeFailure msg))"
| "first_speech v (Inr (p, s) # rest) = (if p \<ge> v then Inr True else first_speech v rest)"

section \<open>A test bench\<close>

text \<open>The configuration of the repository's usage example, a store holding a model with
  it at every address, and a stand-in for the session that reports the first sample of a
  window as its speech probability and counts the calls in the recurrent state.\<close>

definition demo_cfg :: DetectorConfig where
  "demo_cfg = \<lparr>ModelPath = ''silero_vad.onnx'', SampleRate = 16000, Threshold = 0.5,
                MinSilenceDurationMs = 100, SpeechPadMs = 30, LogLevel = 0\<rparr>"

definition demo_store :: store where
  "demo_store = (\<lambda>_. \<lparr>cfg = demo_cfg\<rparr>)"

definition probe_run :: Inferencer where
  "probe_run w s sr = (if w = [] then Inl ''empty window'' else Inr (w ! 0, map (\<lambda>x. x + 1) s))"

text \<open>The same configuration with a padding of \<open>2\<^sup>5\<^sup>7 - 64\<close> ms, whose product with the
  sample rate does not fit 64 bits.\<close>

definition wide_pad_store :: store where
  "wide_pad_store = (\<lambda>_. \<lparr>cfg = demo_cfg\<lparr>SpeechPadMs := 2 ^ 57 - 64\<rparr>\<rparr>)"

text \<open>Inputs at 16 kHz. A window of silence and a burst of two loud windows, followed
  by five windows of silence and one sample more (\<open>one_burst\<close>) or by five windows of
  silence and nothing more (\<open>exact_burst\<close>); two bursts; and a burst followed by windows
  whose level stays between the two thresholds (\<open>held_burst\<close>, of \<^verbatim>\<open>float32\<close>
  values).\<close>

definition one_burst :: "real list" where
  "one_burst = replicate 512 0.1 @ replicate 1024 0.8 @ replicate 2561 0.1"

definition exact_burst :: "real list" where
  "exact_burst = replicate 512 0.1 @ replicate 1024 0.8 @ replicate 2560 0.1"

definition two_bursts :: "real list" where
  "two_bursts = replicate 512 0.1 @ replicate 512 0.8 @ replicate 2560 0.1 @
                replicate 512 0.8 @ replicate 513 0.1"

definition held_burst :: "real list" where
  "held_burst = replicate 512 0.125 @ replicate 512 0.75 @ replicate 2049 0.375"

text \<open>The context that a call of \<^verbatim>\<open>Detect\<close> on \<open>held_burst\<close> leaves behind (in speech,
  no end pending), and next chunks of silence: of five windows and a sample, and of six
  windows.\<close>

definition carried_ctx :: DetectorContext where
  "carried_ctx = \<lparr>model = Some 0, state = replicate 256 6, ctx = replicate 64 0,
                   currSample = 3072, triggered = True, tempEnd = 0\<rparr>"

definition silence :: "real list" where
  "silence = replicate 2561 0.125"

definition six_windows :: "real list" where
  "six_windows = replicate 3072 0.1"

section \<open>Basic facts\<close>

lemma windowSize_pos: "0 < windowSize c"
  by (simp add: windowSize_def)

lemma go_div_nonneg: "0 \<le> a \<Longrightarrow> 0 < b \<Longrightarrow> 0 \<le> go_div a b"
  by (simp add: go_div_def sgn_if pos_imp_zdiv_nonneg_iff)

lemma wrap64_id: "- (2 ^ 63) \<le> x \<Longrightarrow> x < 2 ^ 63 \<Longrightarrow> wrap64 x = x"
  by (simp add: wrap64_def)

lemma wrap64_range: "- (2 ^ 63) \<le> wrap64 x \<and> wrap64 x < 2 ^ 63"
  by (simp add: wrap64_def)

lemma wrap64_add_left: "wrap64 (wrap64 a + b) = wrap64 (a + b)"
  unfolding wrap64_def by (simp add: mod_simps algebra_simps)

lemma wrap64_add_right: "wrap64 (a + wrap64 b) = wrap64 (a + b)"
  unfolding wrap64_def by (simp add: mod_simps algebra_simps)

lemma detect_loop_done:
  "\<not> i < int (length pcm) - windowSize (cfg (st a)) \<Longrightarrow>
   detect_loop run st a pcm ms sp i dc segs = (Inr segs, dc)"
  by (subst detect_loop.simps) simp

lemma detect_loop_step:
  "i < int (length pcm) - windowSize (cfg (st a)) \<Longrightarrow>
   detect_loop run st a pcm ms sp i dc segs =
     (case infer run st dc (slice pcm i (i + windowSize (cfg (st a)))) of
        (Inl err, dc1) \<Rightarrow> (Inl (InferFailed err), dc1)
      | (Inr speechProb, dc1) \<Rightarrow>
          (case detect_window (cfg (st a)) ms sp speechProb dc1 segs of
             (Inl err, dc2) \<Rightarrow> (Inl err, dc2)
           | (Inr segments2, dc2) \<Rightarrow>
               detect_loop run st a pcm ms sp (i + windowSize (cfg (st a))) dc2 segments2))"
  by (subst detect_loop.simps) simp

lemma infer_fields:
  "infer run st dc w = (r, dc1) \<Longrightarrow>
   model dc1 = model dc \<and> ctx dc1 = ctx dc \<and> currSample dc1 = currSample dc \<and>
   triggered dc1 = triggered dc \<and> tempEnd dc1 = tempEnd dc"
  by (auto simp: infer_def split: option.splits sum.splits prod.splits)

lemma update_last:
  "segs \<noteq> [] \<Longrightarrow>
   segs[length segs - 1 := f (segs ! (length segs - 1))] = butlast segs @ [f (last segs)]"
  by (cases segs rule: rev_cases) (simp_all add: nth_append)

lemma map_start_close:
  "segs \<noteq> [] \<Longrightarrow>
   map SpeechStartAt (butlast segs @ [(last segs)\<lparr>SpeechEndAt := e\<rparr>]) = map SpeechStartAt segs"
  by (cases segs rule: rev_cases) simp_all

section \<open>Rounding to \<^verbatim>\<open>float32\<close>\<close>

lemma f32_exponent_from_stop: "e \<le> - 126 \<Longrightarrow> f32_exponent_from e x = - 126"
  by (subst f32_exponent_from.simps) simp

lemma f32_exponent_from_hit:
  "- 126 < e \<Longrightarrow> 2 powi e \<le> \<bar>x\<bar> \<Longrightarrow> f32_exponent_from e x = e"
  by (subst f32_exponent_from.simps) simp

lemma f32_exponent_from_next:
  "- 126 < e \<Longrightarrow> \<not> 2 powi e \<le> \<bar>x\<bar> \<Longrightarrow> f32_exponent_from e x = f32_exponent_from (e - 1) x"
  by (subst f32_exponent_from.simps) simp

lemmas f32_eval = f32_round_def round_half_even_def Let_def
  f32_exponent_from_stop f32_exponent_from_hit f32_exponent_from_next

lemma f32_exponent_from_range:
  "- 126 \<le> e \<Longrightarrow> - 126 \<le> f32_exponent_from e x \<and> f32_exponent_from e x \<le> e"
proof (induction e x rule: f32_exponent_from.induct)
  case (1 e x)
  show ?case
  proof (cases "e \<le> - 126")
    case True
    then show ?thesis using "1.prems" by (simp add: f32_exponent_from_stop)
  next
    case False
    show ?thesis
    proof (cases "2 powi e \<le> \<bar>x\<bar>")
      case True
      then show ?thesis using False by (simp add: f32_exponent_from_hit)
    next
      case miss: False
      have "- 126 \<le> e - 1" using False by simp
      from "1.IH"[OF False miss this] show ?thesis
        using False miss by (simp add: f32_exponent_from_next)
    qed
  qed
qed

lemma f32_exponent_from_le_abs:
  "- 126 < f32_exponent_from e x \<Longrightarrow> 2 powi (f32_exponent_from e x) \<le> \<bar>x\<bar>"
proof (induction e x rule: f32_exponent_from.induct)
  case (1 e x)
  show ?case
  proof (cases "e \<le> - 126")
    case True
    then show ?thesis using "1.prems" by (simp add: f32_exponent_from_stop)
  next
    case False
    show ?thesis
    proof (cases "2 powi e \<le> \<bar>x\<bar>")
      case True
      then show ?thesis using False by (simp add: f32_exponent_from_hit)
    next
      case miss: False
      show ?thesis
        using "1.IH"[OF False miss] "1.prems" False miss by (simp add: f32_exponent_from_next)
    qed
  qed
qed

lemma f32_exponent_from_greatest:
  "f32_exponent_from e x < k \<Longrightarrow> k \<le> e \<Longrightarrow> \<not> 2 powi k \<le> \<bar>x\<bar>"
proof (induction e x rule: f32_exponent_from.induct)
  case (1 e x)
  show ?case
  proof (cases "e \<le> - 126")
    case True
    then show ?thesis using "1.prems" by (simp add: f32_exponent_from_stop)
  next
    case False
    show ?thesis
    proof (cases "2 powi e \<le> \<bar>x\<bar>")
      case True
      then show ?thesis using False "1.prems" by (simp add: f32_exponent_from_hit)
    next
      case miss: False
      show ?thesis
      proof (cases "k = e")
        case True
        then show ?thesis using miss by simp
      next
        case ne: False
        then have "k \<le> e - 1" using "1.prems"(2) by simp
        moreover have "f32_exponent_from (e - 1) x < k"
          using "1.prems"(1) False miss by (simp add: f32_exponent_from_next)
        ultimately show ?thesis using "1.IH"[OF False miss] by simp
      qed
    qed
  qed
qed

lemma round_half_even_le:
  assumes "z \<le> of_int K"
  shows "round_half_even z \<le> K"
proof -
  have f: "\<lfloor>z\<rfloor> \<le> K" using assms by (simp add: floor_le_iff)
  show ?thesis
  proof (cases "z = of_int \<lfloor>z\<rfloor>")
    case True
    then have "z - of_int \<lfloor>z\<rfloor> = 0" by simp
    then show ?thesis using f by (simp add: round_half_even_def Let_def)
  next
    case False
    then have "of_int \<lfloor>z\<rfloor> < z" using of_int_floor_le[of z] by (auto simp: less_le)
    then have "(of_int \<lfloor>z\<rfloor> :: real) < of_int K" using assms by simp
    then have "\<lfloor>z\<rfloor> < K" by simp
    then show ?thesis by (simp add: round_half_even_def Let_def)
  qed
qed

text \<open>Rounding is monotone: it does not carry a number across a \<^verbatim>\<open>float32\<close> above
  it.\<close>

lemma f32_round_le_fixed:
  assumes fx: "f32_round q = q" and le: "y \<le> q"
  shows "f32_round y \<le> q"
proof -
  define ey where "ey = f32_exponent_from 127 y"
  define eq where "eq = f32_exponent_from 127 q"
  define kq where "kq = round_half_even (q / 2 powi (eq - 23))"
  have q: "q = of_int kq * 2 powi (eq - 23)"
    using fx by (simp add: f32_round_def Let_def eq_def kq_def)
  have ry: "f32_round y = of_int (round_half_even (y / 2 powi (ey - 23))) * 2 powi (ey - 23)"
    by (simp add: f32_round_def Let_def ey_def)
  have pos: "(0::real) < 2 powi (ey - 23)" by simp
  have rey: "- 126 \<le> ey \<and> ey \<le> 127"
    unfolding ey_def using f32_exponent_from_range[of 127 y] by simp
  have req: "- 126 \<le> eq \<and> eq \<le> 127"
    unfolding eq_def using f32_exponent_from_range[of 127 q] by simp
  show ?thesis
  proof (cases "ey \<le> eq")
    case True
    have "(2::real) powi (eq - 23) = 2 powi (ey - 23) * 2 powi (eq - ey)"
      by (simp add: power_int_add[symmetric])
    also have "(2::real) powi (eq - ey) = of_int (2 ^ nat (eq - ey))"
      using True by (simp add: power_int_def)
    finally have "q = of_int (kq * 2 ^ nat (eq - ey)) * 2 powi (ey - 23)"
      using q by simp
    then have qq: "q / 2 powi (ey - 23) = of_int (kq * 2 ^ nat (eq - ey))"
      by simp
    have "y / 2 powi (ey - 23) \<le> q / 2 powi (ey - 23)"
      using le pos by (intro divide_right_mono) simp_all
    then have "round_half_even (y / 2 powi (ey - 23)) \<le> kq * 2 ^ nat (eq - ey)"
      unfolding qq by (rule round_half_even_le)
    then have "(of_int (round_half_even (y / 2 powi (ey - 23))) :: real) \<le> of_int (kq * 2 ^ nat (eq - ey))"
      by (simp only: of_int_le_iff)
    then have "real_of_int (round_half_even (y / 2 powi (ey - 23))) * 2 powi (ey - 23)
                 \<le> of_int (kq * 2 ^ nat (eq - ey)) * 2 powi (ey - 23)"
      using pos by (simp only: mult_le_cancel_right_pos)
    then show ?thesis unfolding ry qq[symmetric] by simp
  next
    case False
    then have lt: "eq < ey" by simp
    then have big: "2 powi ey \<le> \<bar>y\<bar>"
      using f32_exponent_from_le_abs[of 127 y] req by (simp add: ey_def)
    have small: "\<not> 2 powi ey \<le> \<bar>q\<bar>"
      using f32_exponent_from_greatest[of 127 q ey] lt rey by (simp add: eq_def)
    have yneg: "y \<le> - (2 powi ey)"
    proof (cases "0 \<le> y")
      case True
      then have "\<bar>y\<bar> \<le> \<bar>q\<bar>" using le by simp
      then show ?thesis using big small by simp
    next
      case False
      then show ?thesis using big by simp
    qed
    have qgt: "- (2 powi ey) < q" using small by simp
    have "(2::real) powi ey = 2 powi ((ey - 23) + 23)" by simp
    also have "\<dots> = 2 powi (ey - 23) * 2 powi 23"
      by (subst power_int_add) simp_all
    finally have e: "(2::real) powi ey = of_int (2 ^ 23) * 2 powi (ey - 23)" by simp
    have "y / 2 powi (ey - 23) \<le> - (2 powi ey) / 2 powi (ey - 23)"
      using yneg pos by (intro divide_right_mono) simp_all
    also have "- (2 powi ey) / 2 powi (ey - 23) = (of_int (- (2 ^ 23)) :: real)"
      unfolding e by simp
    finally have "round_half_even (y / 2 powi (ey - 23)) \<le> - (2 ^ 23)"
      by (rule round_half_even_le)
    then have "(of_int (round_half_even (y / 2 powi (ey - 23))) :: real) \<le> of_int (- (2 ^ 23))"
      by (simp only: of_int_le_iff)
    then have "real_of_int (round_half_even (y / 2 powi (ey - 23))) * 2 powi (ey - 23)
                 \<le> of_int (- (2 ^ 23)) * 2 powi (ey - 23)"
      using pos by (simp only: mult_le_cancel_right_pos)
    also have "\<dots> = - (2 powi ey)" unfolding e by simp
    finally show ?thesis unfolding ry using qgt by simp
  qed
qed

lemma f32_round_constant: "f32_round (3 / 20) = 5033165 / 33554432"
  by (simp add: f32_eval)

text \<open>A \<^verbatim>\<open>float32\<close> that is not below the threshold minus 0.15 is not below the value
  the code compares with either, and one that is below that value is below the
  threshold.\<close>

lemma off_threshold_le:
  assumes "is_float32 q" and "Threshold c - 0.15 \<le> q"
  shows "off_threshold c \<le> q"
proof -
  have "Threshold c - f32_round 0.15 \<le> q"
    using assms(2) by (simp add: f32_round_constant)
  then show ?thesis
    unfolding off_threshold_def using assms(1) f32_round_le_fixed[of q] by (simp add: is_float32_def)
qed

lemma off_threshold_below:
  assumes "is_float32 p" and "p < off_threshold c"
  shows "p < Threshold c"
proof (rule ccontr)
  assume "\<not> p < Threshold c"
  then have "Threshold c - 0.15 \<le> p" by simp
  from off_threshold_le[OF assms(1) this] assms(2) show False by simp
qed

lemma off_threshold_half:
  assumes "Threshold c = 1 / 2"
  shows "off_threshold c = 11744051 / 33554432"
  unfolding off_threshold_def assms
  by (simp add: f32_round_constant) (simp add: f32_eval)

lemma off_threshold_raised:
  assumes "Threshold c = 9 / 10"
  shows "off_threshold c = 3 / 4"
  unfolding off_threshold_def assms
  by (simp add: f32_round_constant) (simp add: f32_eval)

section \<open>The loop body by phases\<close>

lemma start_bound_if:
  "(if real_of_int (wrap64 (wrap64 (n - windowSize c) - sp)) / real_of_int (SampleRate c) < 0 then 0
    else real_of_int (wrap64 (wrap64 (n - windowSize c) - sp)) / real_of_int (SampleRate c)) =
   start_bound c sp n"
  by (simp add: start_bound_def max_def)

text \<open>The loop body in terms of the fields it reads and writes: the cursor \<open>n\<close> after
  the window, the pending end after the first test, whether the second test opens a
  segment, and the third test on the outcome of the two.\<close>

lemma detect_window_phases:
  "detect_window c ms sp p dc segs =
     (let n = wrap64 (currSample dc + windowSize c);
          te2 = (if Threshold c \<le> p then 0 else tempEnd dc);
          starts = (Threshold c \<le> p \<and> \<not> triggered dc);
          segs3 = (if starts then segs @ [\<lparr>SpeechStartAt = start_bound c sp n, SpeechEndAt = 0\<rparr>]
                   else segs)
      in if p < off_threshold c \<and> (triggered dc \<or> starts) then
           (let te4 = (if te2 = 0 then n else te2) in
            if wrap64 (n - te4) < ms
            then (Inr segs3, dc\<lparr>currSample := n, tempEnd := te4, triggered := True\<rparr>)
            else if length segs3 < 1
                 then (Inl UnexpectedSpeechEnd, dc\<lparr>currSample := n, tempEnd := 0, triggered := False\<rparr>)
                 else (Inr (segs3[length segs3 - 1 := (segs3 ! (length segs3 - 1))
                              \<lparr>SpeechEndAt := real_of_int (wrap64 (te4 + sp)) / real_of_int (SampleRate c)\<rparr>]),
                       dc\<lparr>currSample := n, tempEnd := 0, triggered := False\<rparr>))
         else (Inr segs3, dc\<lparr>currSample := n, tempEnd := te2, triggered := (triggered dc \<or> starts)\<rparr>))"
  by (cases dc) (simp add: detect_window_def Let_def start_bound_def max_def not_less)

lemma detect_window_fields:
  "detect_window c ms sp p dc segs = (r, dc') \<Longrightarrow>
   model dc' = model dc \<and> state dc' = state dc \<and> ctx dc' = ctx dc \<and>
   currSample dc' = wrap64 (currSample dc + windowSize c)"
  by (auto simp: detect_window_phases Let_def split: if_splits)

lemma detect_window_idle:
  "\<not> triggered dc \<Longrightarrow> p < Threshold c \<Longrightarrow>
   detect_window c ms sp p dc segs =
     (Inr segs, dc\<lparr>currSample := wrap64 (currSample dc + windowSize c)\<rparr>)"
  by (simp add: detect_window_def Let_def)

lemma detect_window_hold:
  "triggered dc \<Longrightarrow> tempEnd dc = 0 \<Longrightarrow> \<not> p < off_threshold c \<Longrightarrow>
   detect_window c ms sp p dc segs =
     (Inr segs, dc\<lparr>currSample := wrap64 (currSample dc + windowSize c)\<rparr>)"
  by (simp add: detect_window_def Let_def)

lemma detect_window_open:
  "\<not> triggered dc \<Longrightarrow> Threshold c \<le> p \<Longrightarrow> \<not> p < off_threshold c \<Longrightarrow>
   detect_window c ms sp p dc segs =
     (Inr (segs @ [\<lparr>SpeechStartAt = start_bound c sp (wrap64 (currSample dc + windowSize c)),
                    SpeechEndAt = 0\<rparr>]),
      dc\<lparr>currSample := wrap64 (currSample dc + windowSize c), tempEnd := 0, triggered := True\<rparr>)"
  by (cases dc) (simp add: detect_window_phases Let_def)

lemma detect_window_low:
  "triggered dc \<Longrightarrow> p < off_threshold c \<Longrightarrow> p < Threshold c \<Longrightarrow>
   detect_window c ms sp p dc segs =
     (let n = wrap64 (currSample dc + windowSize c);
          te = (if tempEnd dc = 0 then n else tempEnd dc)
      in if wrap64 (n - te) < ms then (Inr segs, dc\<lparr>currSample := n, tempEnd := te\<rparr>)
         else if length segs < 1
              then (Inl UnexpectedSpeechEnd, dc\<lparr>currSample := n, tempEnd := 0, triggered := False\<rparr>)
              else (Inr (segs[length segs - 1 := (segs ! (length segs - 1))
                           \<lparr>SpeechEndAt := real_of_int (wrap64 (te + sp)) / real_of_int (SampleRate c)\<rparr>]),
                    dc\<lparr>currSample := n, tempEnd := 0, triggered := False\<rparr>))"
  by (cases dc) (simp add: detect_window_phases Let_def)

section \<open>The invariant of the loop of \<^verbatim>\<open>Detect\<close>\<close>

lemma start_limit_mono:
  "0 < SampleRate c \<Longrightarrow> m \<le> n \<Longrightarrow> start_limit c sp m \<le> start_limit c sp n"
  by (auto simp: start_limit_def divide_right_mono max_def field_simps)

lemma start_limit_lt:
  assumes "0 < SampleRate c" "0 \<le> sp" "0 < n"
  shows "start_limit c sp n < real_of_int (n + sp) / real_of_int (SampleRate c)"
proof -
  have sr: "0 < real_of_int (SampleRate c)" using assms(1) by simp
  have "real_of_int (n - windowSize c - sp) < real_of_int (n + sp)"
    using windowSize_pos[of c] assms(2) by linarith
  then have a: "real_of_int (n - windowSize c - sp) / real_of_int (SampleRate c)
               < real_of_int (n + sp) / real_of_int (SampleRate c)"
    using sr by (rule divide_strict_right_mono)
  have "0 < real_of_int (n + sp)" using assms(2,3) by linarith
  then have b: "0 < real_of_int (n + sp) / real_of_int (SampleRate c)"
    using sr by (rule divide_pos_pos)
  from a b show ?thesis by (simp add: start_limit_def)
qed

lemma start_limit_nonneg: "0 \<le> start_limit c sp n"
  by (simp add: start_limit_def)

lemma seg_inv_advance:
  assumes "0 < SampleRate c" "seg_inv c sp n te segs"
  shows "seg_inv c sp (n + windowSize c) te segs"
proof -
  have "start_limit c sp n \<le> start_limit c sp (n + windowSize c)"
    using windowSize_pos[of c] assms(1) by (intro start_limit_mono) auto
  then show ?thesis
    using assms(2) windowSize_pos[of c] unfolding seg_inv_def by fastforce
qed

lemma seg_inv_clear: "seg_inv c sp n te segs \<Longrightarrow> seg_inv c sp n 0 segs"
  unfolding seg_inv_def by simp

lemma seg_inv_open:
  assumes "seg_inv c sp n te segs"
  shows "seg_inv c sp n 0 (segs @ [\<lparr>SpeechStartAt = start_limit c sp n, SpeechEndAt = 0\<rparr>])"
  using assms start_limit_nonneg[of c sp n] unfolding seg_inv_def
  by (auto simp: sorted_append)

lemma seg_inv_mark:
  assumes "0 < SampleRate c" "0 \<le> sp" "0 < n" "seg_inv c sp n 0 segs"
  shows "seg_inv c sp n n segs"
proof -
  have "segs \<noteq> [] \<Longrightarrow> SpeechStartAt (last segs)
          < real_of_int (n + sp) / real_of_int (SampleRate c)"
  proof -
    assume "segs \<noteq> []"
    then have "last segs \<in> set segs" by simp
    then have "SpeechStartAt (last segs) \<le> start_limit c sp n"
      using assms(4) unfolding seg_inv_def by blast
    then show ?thesis using start_limit_lt[OF assms(1,2,3)] by linarith
  qed
  then show ?thesis using assms(3,4) unfolding seg_inv_def by auto
qed

lemma seg_inv_close:
  assumes "seg_inv c sp n te segs" "te \<noteq> 0" "segs \<noteq> []"
  shows "seg_inv c sp n 0
           (butlast segs @ [(last segs)\<lparr>SpeechEndAt := real_of_int (te + sp) / real_of_int (SampleRate c)\<rparr>])"
proof -
  have l: "last segs \<in> set segs" using assms(3) by simp
  have b: "\<And>s. s \<in> set (butlast segs) \<Longrightarrow> s \<in> set segs" by (rule in_set_butlastD)
  show ?thesis
    using assms l unfolding seg_inv_def
    by (auto simp: map_start_close[OF assms(3)] simp del: map_append dest: b)
qed

text \<open>One window keeps the invariant while the cursor and the padding together stay
  inside 64 bits.\<close>

lemma detect_window_inv:
  assumes sr: "0 < SampleRate c" and sp: "0 \<le> sp"
    and inv: "seg_inv c sp (currSample dc) (tempEnd dc) segs"
    and bnd: "currSample dc + windowSize c + sp < 2 ^ 63"
    and dw: "detect_window c ms sp p dc segs = (Inr segs', dc')"
  shows "seg_inv c sp (currSample dc') (tempEnd dc') segs' \<and>
         currSample dc' = currSample dc + windowSize c"
proof -
  define n where "n = currSample dc + windowSize c"
  have c0: "0 \<le> currSample dc" using inv unfolding seg_inv_def by simp
  have npos: "0 < n" unfolding n_def using c0 windowSize_pos[of c] by linarith
  have nb: "n + sp < 2 ^ 63" unfolding n_def using bnd by simp
  have wn: "wrap64 (currSample dc + windowSize c) = n"
    unfolding n_def[symmetric] using npos nb sp by (intro wrap64_id) linarith+
  have w1: "wrap64 (n - windowSize c) = currSample dc"
    unfolding n_def using c0 npos nb sp windowSize_pos[of c]
    by (simp add: wrap64_id n_def)
  have w2: "wrap64 (currSample dc - sp) = currSample dc - sp"
    using c0 npos nb sp windowSize_pos[of c] unfolding n_def by (intro wrap64_id) linarith+
  have sb: "start_bound c sp n = start_limit c sp n"
    unfolding start_bound_def start_limit_def w1 w2 by (simp add: n_def)
  define te2 where "te2 = (if Threshold c \<le> p then 0 else tempEnd dc)"
  define starts where "starts \<longleftrightarrow> Threshold c \<le> p \<and> \<not> triggered dc"
  define segs3 where "segs3 = (if starts then segs @ [\<lparr>SpeechStartAt = start_limit c sp n, SpeechEndAt = 0\<rparr>]
                               else segs)"
  have inv1: "seg_inv c sp n (tempEnd dc) segs"
    unfolding n_def using sr inv by (rule seg_inv_advance)
  have inv3: "seg_inv c sp n te2 segs3"
  proof (cases starts)
    case True
    then have "te2 = 0" unfolding te2_def starts_def by simp
    then show ?thesis using True seg_inv_open[OF inv1] unfolding segs3_def by simp
  next
    case False
    then show ?thesis
      using inv1 seg_inv_clear[OF inv1] unfolding segs3_def te2_def by simp
  qed
  show ?thesis
  proof (cases "p < off_threshold c \<and> (triggered dc \<or> starts)")
    case False
    then have "segs' = segs3 \<and> currSample dc' = n \<and> tempEnd dc' = te2"
      using dw unfolding detect_window_phases Let_def wn sb
      by (auto simp: te2_def starts_def segs3_def)
    then show ?thesis using inv3 by (simp add: n_def)
  next
    case low: True
    define te4 where "te4 = (if te2 = 0 then n else te2)"
    have inv4: "seg_inv c sp n te4 segs3"
      unfolding te4_def using inv3 seg_inv_mark[OF sr sp npos, of segs3] by auto
    have te0: "te4 \<noteq> 0" unfolding te4_def using npos by auto
    show ?thesis
    proof (cases "wrap64 (n - te4) < ms")
      case True
      then have "segs' = segs3 \<and> currSample dc' = n \<and> tempEnd dc' = te4"
        using dw low unfolding detect_window_phases Let_def wn sb
        by (auto simp: te2_def starts_def segs3_def te4_def split: if_splits)
      then show ?thesis using inv4 by (simp add: n_def)
    next
      case met: False
      have ne: "segs3 \<noteq> []"
        using dw low met unfolding detect_window_phases Let_def wn sb
        by (auto simp: te2_def starts_def segs3_def te4_def split: if_splits)
      have "0 < te4 \<and> te4 \<le> n" using inv4 ne te0 unfolding seg_inv_def by simp
      then have we: "wrap64 (te4 + sp) = te4 + sp"
        using nb sp by (intro wrap64_id) linarith+
      have "segs' = segs3[length segs3 - 1 := (segs3 ! (length segs3 - 1))
                     \<lparr>SpeechEndAt := real_of_int (te4 + sp) / real_of_int (SampleRate c)\<rparr>]
            \<and> currSample dc' = n \<and> tempEnd dc' = 0"
        using dw low met ne we unfolding detect_window_phases Let_def wn sb
        by (auto simp: te2_def starts_def segs3_def te4_def split: if_splits)
      then show ?thesis
        using seg_inv_close[OF inv4 te0 ne] update_last[OF ne] by (simp add: n_def)
    qed
  qed
qed

lemma detect_loop_inv:
  "0 < SampleRate (cfg (st a)) \<Longrightarrow> 0 \<le> sp \<Longrightarrow> 0 \<le> i \<Longrightarrow>
   seg_inv (cfg (st a)) sp (currSample dc) (tempEnd dc) segs \<Longrightarrow>
   currSample dc + (int (length pcm) - i) + sp < 2 ^ 63 \<Longrightarrow>
   detect_loop run st a pcm ms sp i dc segs = (Inr segs', dc') \<Longrightarrow>
   seg_inv (cfg (st a)) sp (currSample dc') (tempEnd dc') segs'"
proof (induction run st a pcm ms sp i dc segs rule: detect_loop.induct)
  case (1 run st a pcm ms sp i dc segs)
  note sr = "1.prems"(1) and sp = "1.prems"(2) and i0 = "1.prems"(3) and inv = "1.prems"(4)
    and bnd = "1.prems"(5) and res = "1.prems"(6)
  let ?w = "windowSize (cfg (st a))"
  show ?case
  proof (cases "i < int (length pcm) - ?w")
    case False
    then show ?thesis using inv res by (simp add: detect_loop_done)
  next
    case True
    obtain r1 dc1 where inf: "infer run st dc (slice pcm i (i + ?w)) = (r1, dc1)"
      by (cases "infer run st dc (slice pcm i (i + ?w))")
    obtain p where r1: "r1 = Inr p"
      using res True inf by (cases r1) (auto simp: detect_loop_step)
    obtain r2 dc2 where dw: "detect_window (cfg (st a)) ms sp p dc1 segs = (r2, dc2)"
      by (cases "detect_window (cfg (st a)) ms sp p dc1 segs")
    obtain segs2 where r2: "r2 = Inr segs2"
      using res True inf r1 dw by (cases r2) (auto simp: detect_loop_step)
    have rest: "detect_loop run st a pcm ms sp (i + ?w) dc2 segs2 = (Inr segs', dc')"
      using res True inf r1 dw r2 by (simp add: detect_loop_step)
    have c1: "currSample dc1 = currSample dc" using infer_fields[OF inf] by simp
    have inv1: "seg_inv (cfg (st a)) sp (currSample dc1) (tempEnd dc1) segs"
      using inv infer_fields[OF inf] by simp
    have b1: "currSample dc1 + ?w + sp < 2 ^ 63"
      using bnd True c1 by linarith
    have step: "seg_inv (cfg (st a)) sp (currSample dc2) (tempEnd dc2) segs2 \<and>
                currSample dc2 = currSample dc1 + ?w"
      using detect_window_inv[OF sr sp inv1 b1 dw[unfolded r2]] .
    have b2: "currSample dc2 + (int (length pcm) - (i + ?w)) + sp < 2 ^ 63"
      using step c1 bnd by simp
    have i2: "0 \<le> i + ?w" using i0 windowSize_pos[of "cfg (st a)"] by linarith
    have s1: "seg_inv (cfg (st a)) sp (currSample dc2) (tempEnd dc2) segs2"
      using step by blast
    show ?thesis
      using "1.IH"[OF True inf[symmetric] r1 dw[symmetric] r2 sr sp i2 s1 b2 rest] .
  qed
qed

section \<open>The loop of \<^verbatim>\<open>Detect\<close> is the engine on the answers of the session\<close>

lemma window_outcomes_done:
  "\<not> i < int (length pcm) - windowSize c \<Longrightarrow> window_outcomes run c pcm i s = []"
  by (subst window_outcomes.simps) simp

lemma window_outcomes_step:
  "i < int (length pcm) - windowSize c \<Longrightarrow>
   window_outcomes run c pcm i s =
     (case run (slice pcm i (i + windowSize c)) s (SampleRate c) of
        Inl msg \<Rightarrow> [Inl msg]
      | Inr (prob, stateN) \<Rightarrow>
          Inr (prob, stateN) # window_outcomes run c pcm (i + windowSize c) stateN)"
  by (subst window_outcomes.simps) simp

lemma detect_loop_engine:
  "model dc = Some a \<Longrightarrow>
   detect_loop run st a pcm ms sp i dc segs =
     engine (cfg (st a)) ms sp (window_outcomes run (cfg (st a)) pcm i (state dc)) dc segs"
proof (induction run st a pcm ms sp i dc segs rule: detect_loop.induct)
  case (1 run st a pcm ms sp i dc segs)
  note m = "1.prems"
  let ?c = "cfg (st a)"
  show ?case
  proof (cases "i < int (length pcm) - windowSize ?c")
    case False
    then show ?thesis by (simp add: detect_loop_done window_outcomes_done)
  next
    case True
    show ?thesis
    proof (cases "run (slice pcm i (i + windowSize ?c)) (state dc) (SampleRate ?c)")
      case (Inl msg)
      then show ?thesis
        using True m by (simp add: detect_loop_step window_outcomes_step infer_def)
    next
      case (Inr ps)
      obtain p s where ps: "ps = (p, s)" by (cases ps)
      have inf: "infer run st dc (slice pcm i (i + windowSize ?c)) = (Inr p, dc\<lparr>state := s\<rparr>)"
        using m Inr ps by (simp add: infer_def)
      obtain r2 dc2 where dw: "detect_window ?c ms sp p (dc\<lparr>state := s\<rparr>) segs = (r2, dc2)"
        by (cases "detect_window ?c ms sp p (dc\<lparr>state := s\<rparr>) segs")
      have f: "model dc2 = Some a" "state dc2 = s"
        using detect_window_fields[OF dw] m by simp_all
      show ?thesis
      proof (cases r2)
        case (Inl e)
        then show ?thesis
          using True Inr ps inf dw by (simp add: detect_loop_step window_outcomes_step)
      next
        case r2: (Inr segs2)
        have "detect_loop run st a pcm ms sp (i + windowSize ?c) dc2 segs2 =
              engine ?c ms sp (window_outcomes run ?c pcm (i + windowSize ?c) (state dc2)) dc2 segs2"
          using "1.IH"[OF True inf[symmetric] refl dw[symmetric] r2 f(1)] .
        then show ?thesis
          using True Inr ps inf dw r2 f by (simp add: detect_loop_step window_outcomes_step)
      qed
    qed
  qed
qed

lemma Detect_engine:
  assumes "model dc = Some a" and "windowSize (cfg (st a)) \<le> int (length pcm)"
  shows "Detect run st (Some dc) pcm =
     (case engine (cfg (st a))
             (go_div (wrap64 (MinSilenceDurationMs (cfg (st a)) * SampleRate (cfg (st a)))) 1000)
             (go_div (wrap64 (SpeechPadMs (cfg (st a)) * SampleRate (cfg (st a)))) 1000)
             (window_outcomes run (cfg (st a)) pcm 0 (state dc)) dc [] of
        (r, dc') \<Rightarrow> (r, Some dc', st))"
  using assms by (simp add: Detect_def Let_def detect_loop_engine)

lemma engine_append:
  "engine c ms sp (xs @ ys) dc segs =
     (case engine c ms sp xs dc segs of
        (Inl e, d) \<Rightarrow> (Inl e, d)
      | (Inr segs', d) \<Rightarrow> engine c ms sp ys d segs')"
  by (induction c ms sp xs dc segs rule: engine.induct)
     (auto split: prod.splits sum.splits)

lemma probs_all_Inr:
  "map (map_sum (\<lambda>msg. msg) fst) outs = map Inr ps \<Longrightarrow> \<exists>pss. outs = map Inr pss \<and> map fst pss = ps"
proof (induction outs arbitrary: ps)
  case Nil
  then show ?case by simp
next
  case (Cons o1 outs)
  then obtain p ps' where ps: "ps = p # ps'" by (cases ps) auto
  with Cons.prems have h: "map_sum (\<lambda>msg. msg) fst o1 = Inr p" and t: "map (map_sum (\<lambda>msg. msg) fst) outs = map Inr ps'"
    by simp_all
  from h obtain q where q: "o1 = Inr q" "fst q = p" by (cases o1) auto
  from Cons.IH[OF t] obtain pss where "outs = map Inr pss" "map fst pss = ps'" by blast
  then have "o1 # outs = map Inr (q # pss) \<and> map fst (q # pss) = ps"
    using q ps by simp
  then show ?case by (rule exI[of _ "q # pss"])
qed


lemma engine_idle:
  "\<not> triggered dc \<Longrightarrow> \<forall>q \<in> set pss. fst q < Threshold c \<Longrightarrow>
   \<exists>dc'. engine c ms sp (map Inr pss) dc segs = (Inr segs, dc') \<and> \<not> triggered dc' \<and>
         tempEnd dc' = tempEnd dc \<and>
         wrap64 (currSample dc') = wrap64 (currSample dc + windowSize c * int (length pss))"
proof (induction pss arbitrary: dc)
  case Nil
  then show ?case by simp
next
  case (Cons q pss)
  obtain p s where q: "q = (p, s)" by (cases q)
  let ?d = "dc\<lparr>state := s, currSample := wrap64 (currSample dc + windowSize c)\<rparr>"
  have p: "p < Threshold c" using Cons.prems(2) q by simp
  have step: "detect_window c ms sp p (dc\<lparr>state := s\<rparr>) segs = (Inr segs, ?d)"
    using detect_window_idle[of "dc\<lparr>state := s\<rparr>" p c ms sp segs] Cons.prems(1) p by simp
  have "\<not> triggered ?d" using Cons.prems(1) by simp
  from Cons.IH[OF this] Cons.prems(2)
  obtain dc' where e: "engine c ms sp (map Inr pss) ?d segs = (Inr segs, dc')" "\<not> triggered dc'"
      "tempEnd dc' = tempEnd ?d"
      and cur: "wrap64 (currSample dc') = wrap64 (currSample ?d + windowSize c * int (length pss))"
    by auto
  have "wrap64 (currSample ?d + windowSize c * int (length pss)) =
        wrap64 (currSample dc + windowSize c + windowSize c * int (length pss))"
    by (simp add: wrap64_add_left)
  also have "\<dots> = wrap64 (currSample dc + windowSize c * int (length (q # pss)))"
    by (simp add: algebra_simps)
  finally have "wrap64 (currSample dc') = wrap64 (currSample dc + windowSize c * int (length (q # pss)))"
    using cur by simp
  then show ?case using q step e by simp
qed

lemma engine_hold:
  "triggered dc \<Longrightarrow> tempEnd dc = 0 \<Longrightarrow> \<forall>q \<in> set pss. \<not> fst q < off_threshold c \<Longrightarrow>
   \<exists>dc'. engine c ms sp (map Inr pss) dc segs = (Inr segs, dc') \<and> triggered dc' \<and>
         tempEnd dc' = 0"
proof (induction pss arbitrary: dc)
  case Nil
  then show ?case by simp
next
  case (Cons q pss)
  obtain p s where q: "q = (p, s)" by (cases q)
  let ?d = "dc\<lparr>state := s, currSample := wrap64 (currSample dc + windowSize c)\<rparr>"
  have p: "\<not> p < off_threshold c" using Cons.prems(3) q by simp
  have step: "detect_window c ms sp p (dc\<lparr>state := s\<rparr>) segs = (Inr segs, ?d)"
    using detect_window_hold[of "dc\<lparr>state := s\<rparr>" p c ms sp segs] Cons.prems(1,2) p by simp
  have "triggered ?d" "tempEnd ?d = 0" using Cons.prems(1,2) by simp_all
  from Cons.IH[OF this] Cons.prems(3)
  obtain dc' where "engine c ms sp (map Inr pss) ?d segs = (Inr segs, dc')" "triggered dc'"
      "tempEnd dc' = 0"
    by auto
  then show ?case using q step by simp
qed

lemma window_outcomes_nonempty:
  "window_outcomes run c pcm 0 s \<noteq> [] \<Longrightarrow> windowSize c \<le> int (length pcm)"
  using window_outcomes_done[of 0 pcm c run s] windowSize_pos[of c] by fastforce

lemma engine_Inr:
  "engine c ms sp (Inr q # rest) dc segs =
     (case detect_window c ms sp (fst q) (dc\<lparr>state := snd q\<rparr>) segs of
        (Inl err, dc2) \<Rightarrow> (Inl err, dc2)
      | (Inr segs2, dc2) \<Rightarrow> engine c ms sp rest dc2 segs2)"
  by (cases q) simp

section \<open>The loops of \<^verbatim>\<open>IsSpeech\<close> and \<^verbatim>\<open>IsSpeechQuick\<close> on the answers of the session\<close>

lemma isSpeech_loop_done:
  "\<not> i < int (length pcm) - windowSize (cfg (st a)) \<Longrightarrow>
   isSpeech_loop run st a pcm i dc = (Inr False, dc)"
  by (subst isSpeech_loop.simps) simp

lemma isSpeech_loop_step:
  "i < int (length pcm) - windowSize (cfg (st a)) \<Longrightarrow>
   isSpeech_loop run st a pcm i dc =
     (case infer run st dc (slice pcm i (i + windowSize (cfg (st a)))) of
        (Inl err, dc1) \<Rightarrow> (Inl (InferFailed err), dc1)
      | (Inr speechProb, dc1) \<Rightarrow>
          (let dc2 = dc1\<lparr>currSample := wrap64 (currSample dc1 + windowSize (cfg (st a)))\<rparr>
           in if speechProb \<ge> Threshold (cfg (st a)) then (Inr True, dc2)
              else isSpeech_loop run st a pcm (i + windowSize (cfg (st a))) dc2))"
  by (subst isSpeech_loop.simps) simp

lemma isSpeechQuick_loop_done:
  "\<not> (i < int (length pcm) - windowSize (cfg (st a)) \<and> windowCount < maxWindows) \<Longrightarrow>
   isSpeechQuick_loop run st a pcm maxWindows i windowCount dc = (Inr False, dc)"
  by (subst isSpeechQuick_loop.simps) auto

lemma isSpeechQuick_loop_step:
  "i < int (length pcm) - windowSize (cfg (st a)) \<Longrightarrow> windowCount < maxWindows \<Longrightarrow>
   isSpeechQuick_loop run st a pcm maxWindows i windowCount dc =
     (case infer run st dc (slice pcm i (i + windowSize (cfg (st a)))) of
        (Inl err, dc1) \<Rightarrow> (Inl (InferFailed err), dc1)
      | (Inr speechProb, dc1) \<Rightarrow>
          (let dc2 = dc1\<lparr>currSample := wrap64 (currSample dc1 + windowSize (cfg (st a)))\<rparr>
           in if speechProb \<ge> Threshold (cfg (st a)) then (Inr True, dc2)
              else isSpeechQuick_loop run st a pcm maxWindows
                     (i + windowSize (cfg (st a))) (windowCount + 1) dc2))"
  by (subst isSpeechQuick_loop.simps) simp

lemma isSpeech_loop_first:
  "model dc = Some a \<Longrightarrow>
   fst (isSpeech_loop run st a pcm i dc) =
     first_speech (Threshold (cfg (st a))) (window_outcomes run (cfg (st a)) pcm i (state dc))"
proof (induction run st a pcm i dc rule: isSpeech_loop.induct)
  case (1 run st a pcm i dc)
  note m = "1.prems"
  let ?c = "cfg (st a)"
  show ?case
  proof (cases "i < int (length pcm) - windowSize ?c")
    case False
    then show ?thesis by (simp add: isSpeech_loop_done window_outcomes_done)
  next
    case True
    show ?thesis
    proof (cases "run (slice pcm i (i + windowSize ?c)) (state dc) (SampleRate ?c)")
      case (Inl msg)
      then show ?thesis
        using True m by (simp add: isSpeech_loop_step window_outcomes_step infer_def)
    next
      case (Inr ps)
      obtain p s where ps: "ps = (p, s)" by (cases ps)
      have inf: "infer run st dc (slice pcm i (i + windowSize ?c)) = (Inr p, dc\<lparr>state := s\<rparr>)"
        using m Inr ps by (simp add: infer_def)
      let ?d = "dc\<lparr>state := s, currSample := wrap64 (currSample dc + windowSize ?c)\<rparr>"
      show ?thesis
      proof (cases "Threshold ?c \<le> p")
        case True
        then show ?thesis
          using \<open>i < int (length pcm) - windowSize ?c\<close> Inr ps inf
          by (simp add: isSpeech_loop_step window_outcomes_step Let_def)
      next
        case False
        have "fst (isSpeech_loop run st a pcm (i + windowSize ?c) ?d) =
              first_speech (Threshold ?c) (window_outcomes run ?c pcm (i + windowSize ?c) (state ?d))"
          using "1.IH"[OF \<open>i < int (length pcm) - windowSize ?c\<close> inf[symmetric] refl _ False] m
          by simp
        then show ?thesis
          using \<open>i < int (length pcm) - windowSize ?c\<close> Inr ps inf False
          by (simp add: isSpeech_loop_step window_outcomes_step Let_def)
      qed
    qed
  qed
qed


lemma isSpeechQuick_loop_first:
  "model dc = Some a \<Longrightarrow>
   fst (isSpeechQuick_loop run st a pcm mw i wc dc) =
     first_speech (Threshold (cfg (st a)))
       (take (nat (mw - wc)) (window_outcomes run (cfg (st a)) pcm i (state dc)))"
proof (induction run st a pcm mw i wc dc rule: isSpeechQuick_loop.induct)
  case (1 run st a pcm mw i wc dc)
  note m = "1.prems"
  let ?c = "cfg (st a)"
  show ?case
  proof (cases "i < int (length pcm) - windowSize ?c \<and> wc < mw")
    case False
    have t: "take (nat (mw - wc)) (window_outcomes run ?c pcm i (state dc)) = []"
    proof (cases "wc < mw")
      case True
      then show ?thesis using False by (simp add: window_outcomes_done)
    next
      case False
      then show ?thesis by simp
    qed
    have l: "isSpeechQuick_loop run st a pcm mw i wc dc = (Inr False, dc)"
      using False by (rule isSpeechQuick_loop_done)
    show ?thesis unfolding l t by simp
  next
    case True
    then have g: "i < int (length pcm) - windowSize ?c" "wc < mw" by simp_all
    have n: "nat (mw - wc) = Suc (nat (mw - (wc + 1)))" using g(2) by simp
    show ?thesis
    proof (cases "run (slice pcm i (i + windowSize ?c)) (state dc) (SampleRate ?c)")
      case (Inl msg)
      then show ?thesis
        using g m n by (simp add: isSpeechQuick_loop_step window_outcomes_step infer_def)
    next
      case (Inr ps)
      obtain p s where ps: "ps = (p, s)" by (cases ps)
      have inf: "infer run st dc (slice pcm i (i + windowSize ?c)) = (Inr p, dc\<lparr>state := s\<rparr>)"
        using m Inr ps by (simp add: infer_def)
      let ?d = "dc\<lparr>state := s, currSample := wrap64 (currSample dc + windowSize ?c)\<rparr>"
      show ?thesis
      proof (cases "Threshold ?c \<le> p")
        case True
        then show ?thesis
          using g n Inr ps inf
          by (simp add: isSpeechQuick_loop_step window_outcomes_step Let_def)
      next
        case False
        have "fst (isSpeechQuick_loop run st a pcm mw (i + windowSize ?c) (wc + 1) ?d) =
              first_speech (Threshold ?c)
                (take (nat (mw - (wc + 1))) (window_outcomes run ?c pcm (i + windowSize ?c) (state ?d)))"
          using "1.IH"[OF True inf[symmetric] refl _ False] m by simp
        then show ?thesis
          using g n Inr ps inf False
          by (simp add: isSpeechQuick_loop_step window_outcomes_step Let_def)
      qed
    qed
  qed
qed

lemma window_outcomes_cong:
  "SampleRate c' = SampleRate c \<Longrightarrow>
   window_outcomes run c' pcm i s = window_outcomes run c pcm i s"
proof (induction run c pcm i s rule: window_outcomes.induct)
  case (1 run c pcm i s)
  have w: "windowSize c' = windowSize c" using "1.prems" by (simp add: windowSize_def)
  show ?case
  proof (cases "i < int (length pcm) - windowSize c")
    case False
    then show ?thesis using w by (simp add: window_outcomes_done)
  next
    case True
    show ?thesis
    proof (cases "run (slice pcm i (i + windowSize c)) s (SampleRate c)")
      case (Inl msg)
      then show ?thesis using True w "1.prems" by (simp add: window_outcomes_step)
    next
      case (Inr ps)
      obtain p s' where ps: "ps = (p, s')" by (cases ps)
      show ?thesis
        using True w "1.prems" Inr ps "1.IH"[OF True Inr ps[symmetric] "1.prems"]
        by (simp add: window_outcomes_step)
    qed
  qed
qed

section \<open>How many windows the loops visit\<close>

lemma count_done:
  fixes w :: int
  assumes "0 < w" "\<not> i < L - w"
  shows "nat ((L - i - 1) div w) = 0"
proof -
  have "L - i - 1 < w" using assms(2) by linarith
  then have "(L - i - 1) div w \<le> 0"
    using assms(1) pos_imp_zdiv_pos_iff[of w "L - i - 1"] by linarith
  then show ?thesis by simp
qed

lemma count_step:
  fixes w :: int
  assumes "0 < w" "i < L - w"
  shows "nat ((L - i - 1) div w) = Suc (nat ((L - (i + w) - 1) div w))"
proof -
  have e: "L - i - 1 = (L - (i + w) - 1) + w" by simp
  have "(L - i - 1) div w = (L - (i + w) - 1) div w + 1"
    unfolding e using assms(1) by (subst div_add_self2) simp_all
  moreover have "0 \<le> (L - (i + w) - 1) div w"
    using assms by (simp add: pos_imp_zdiv_nonneg_iff)
  ultimately show ?thesis by simp
qed

lemma count_exact:
  fixes w :: int
  assumes "0 < w" "0 < k"
  shows "(k * w - 0 - 1) div w = k - 1"
proof -
  have e: "k * w - 0 - 1 = (w - 1) + (k - 1) * w" by (simp add: algebra_simps)
  have "(k * w - 0 - 1) div w = (k - 1) + (w - 1) div w"
    unfolding e using assms(1) by (subst div_mult_self1) simp_all
  then show ?thesis using assms(1) by (simp add: div_pos_pos_trivial)
qed


text \<open>The cursor after a call that returns segments: one wrapped addition of the
  window size for each window the loop visits.\<close>

lemma detect_loop_cursor:
  "detect_loop run st a pcm ms sp i dc segs = (Inr segs', dc') \<Longrightarrow>
   currSample dc' =
     ((\<lambda>n. wrap64 (n + windowSize (cfg (st a)))) ^^
        nat ((int (length pcm) - i - 1) div windowSize (cfg (st a)))) (currSample dc)"
proof (induction run st a pcm ms sp i dc segs rule: detect_loop.induct)
  case (1 run st a pcm ms sp i dc segs)
  note res = "1.prems"
  let ?w = "windowSize (cfg (st a))"
  show ?case
  proof (cases "i < int (length pcm) - ?w")
    case False
    then show ?thesis
      using res count_done[OF windowSize_pos False] by (simp add: detect_loop_done)
  next
    case True
    obtain r1 dc1 where inf: "infer run st dc (slice pcm i (i + ?w)) = (r1, dc1)"
      by (cases "infer run st dc (slice pcm i (i + ?w))")
    obtain p where r1: "r1 = Inr p"
      using res True inf by (cases r1) (auto simp: detect_loop_step)
    obtain r2 dc2 where dw: "detect_window (cfg (st a)) ms sp p dc1 segs = (r2, dc2)"
      by (cases "detect_window (cfg (st a)) ms sp p dc1 segs")
    obtain segs2 where r2: "r2 = Inr segs2"
      using res True inf r1 dw by (cases r2) (auto simp: detect_loop_step)
    have rest: "detect_loop run st a pcm ms sp (i + ?w) dc2 segs2 = (Inr segs', dc')"
      using res True inf r1 dw r2 by (simp add: detect_loop_step)
    have c2: "currSample dc2 = wrap64 (currSample dc + ?w)"
      using infer_fields[OF inf] detect_window_fields[OF dw] by simp
    let ?f = "\<lambda>n. wrap64 (n + ?w)"
    let ?k = "nat ((int (length pcm) - (i + ?w) - 1) div ?w)"
    have "currSample dc' = (?f ^^ ?k) (?f (currSample dc))"
      using "1.IH"[OF True inf[symmetric] r1 dw[symmetric] r2 rest] c2 by simp
    also have "\<dots> = (?f ^^ Suc ?k) (currSample dc)"
      by (simp only: funpow_Suc_right o_apply)
    finally show ?thesis
      unfolding count_step[OF windowSize_pos True] .
  qed
qed

lemma cursor_advance:
  "((\<lambda>n. wrap64 (n + w)) ^^ Suc m) x = wrap64 (x + w * (int m + 1))"
proof (induction m)
  case 0
  show ?case by simp
next
  case (Suc m)
  have "((\<lambda>n. wrap64 (n + w)) ^^ Suc (Suc m)) x =
        wrap64 (((\<lambda>n. wrap64 (n + w)) ^^ Suc m) x + w)"
    by simp
  also have "\<dots> = wrap64 (wrap64 (x + w * (int m + 1)) + w)"
    unfolding Suc.IH ..
  also have "\<dots> = wrap64 (x + w * (int m + 1) + w)"
    by (rule wrap64_add_left)
  also have "\<dots> = wrap64 (x + w * (int (Suc m) + 1))"
    by (simp add: algebra_simps)
  finally show ?case .
qed

lemma window_outcomes_length:
  "length (window_outcomes run c pcm i s) \<le> nat ((int (length pcm) - i - 1) div windowSize c)"
proof (induction run c pcm i s rule: window_outcomes.induct)
  case (1 run c pcm i s)
  show ?case
  proof (cases "i < int (length pcm) - windowSize c")
    case False
    then show ?thesis by (simp add: window_outcomes_done)
  next
    case True
    show ?thesis
    proof (cases "run (slice pcm i (i + windowSize c)) s (SampleRate c)")
      case (Inl msg)
      then show ?thesis
        using True count_step[OF windowSize_pos True] by (simp add: window_outcomes_step)
    next
      case (Inr ps)
      obtain p s' where ps: "ps = (p, s')" by (cases ps)
      show ?thesis
        using True Inr ps "1.IH"[OF True Inr ps[symmetric]] count_step[OF windowSize_pos True]
        by (simp add: window_outcomes_step)
    qed
  qed
qed

lemma engine_errors:
  "engine c ms sp outs dc segs = (Inl e, dc') \<Longrightarrow>
   e = UnexpectedSpeechEnd \<or> (\<exists>msg. e = InferFailed (RuntimeFailure msg))"
proof (induction c ms sp outs dc segs rule: engine.induct)
  case (1 c ms sp dc segs)
  then show ?case by simp
next
  case (2 c ms sp msg rest dc segs)
  then show ?case by auto
next
  case (3 c ms sp p s rest dc segs)
  obtain r2 dc2 where dw: "detect_window c ms sp p (dc\<lparr>state := s\<rparr>) segs = (r2, dc2)"
    by (cases "detect_window c ms sp p (dc\<lparr>state := s\<rparr>) segs")
  show ?case
  proof (cases r2)
    case (Inl e2)
    then have "e2 = UnexpectedSpeechEnd"
      using dw by (auto simp: detect_window_phases Let_def split: if_splits)
    then show ?thesis using "3.prems" dw Inl by simp
  next
    case (Inr segs2)
    then show ?thesis using "3.IH"[OF dw[symmetric] Inr] "3.prems" dw by simp
  qed
qed

lemma take_drop_cong:
  assumes "take n xs = take n ys" and "a + b \<le> n"
  shows "take b (drop a xs) = take b (drop a ys)"
proof -
  have "take b (drop a xs) = drop a (take (b + a) (take n xs))"
    using assms(2) by (simp add: take_drop min_def)
  also have "\<dots> = drop a (take (b + a) (take n ys))" using assms(1) by simp
  also have "\<dots> = take b (drop a ys)"
    using assms(2) by (simp add: take_drop min_def)
  finally show ?thesis .
qed


lemma window_outcomes_prefix:
  "length t = length pcm \<Longrightarrow>
   take (length pcm - nat (windowSize c)) t = take (length pcm - nat (windowSize c)) pcm \<Longrightarrow>
   windowSize c dvd int (length pcm) \<Longrightarrow> windowSize c dvd i \<Longrightarrow> 0 \<le> i \<Longrightarrow>
   window_outcomes run c t i s = window_outcomes run c pcm i s"
proof (induction run c pcm i s rule: window_outcomes.induct)
  case (1 run c pcm i s)
  note len = "1.prems"(1) and pre = "1.prems"(2) and dl = "1.prems"(3) and di = "1.prems"(4)
    and i0 = "1.prems"(5)
  let ?w = "windowSize c"
  show ?case
  proof (cases "i < int (length pcm) - ?w")
    case False
    then show ?thesis using len by (simp add: window_outcomes_done)
  next
    case True
    have "?w dvd int (length pcm) - ?w - i" using dl di by simp
    then have "?w \<le> int (length pcm) - ?w - i"
      using True by (intro zdvd_imp_le) simp_all
    then have fit: "nat i + nat ?w \<le> length pcm - nat ?w"
      using i0 windowSize_pos[of c] by linarith
    have sl: "slice t i (i + ?w) = slice pcm i (i + ?w)"
      unfolding slice_def using take_drop_cong[OF pre fit] by simp
    have di': "?w dvd i + ?w" using di by simp
    have i0': "0 \<le> i + ?w" using i0 windowSize_pos[of c] by linarith
    show ?thesis
    proof (cases "run (slice pcm i (i + ?w)) s (SampleRate c)")
      case (Inl msg)
      then show ?thesis using True len sl by (simp add: window_outcomes_step)
    next
      case (Inr ps)
      obtain p s' where ps: "ps = (p, s')" by (cases ps)
      show ?thesis
        using True len sl Inr ps "1.IH"[OF True Inr ps[symmetric] len pre dl di' i0']
        by (simp add: window_outcomes_step)
    qed
  qed
qed

section \<open>When the engine returns segments\<close>

lemma detect_window_succeeds:
  assumes "triggered dc \<longrightarrow> segs \<noteq> []"
  shows "\<exists>segs' dc'. detect_window c ms sp p dc segs = (Inr segs', dc') \<and>
                     (triggered dc' \<longrightarrow> segs' \<noteq> [])"
  using assms by (auto simp: detect_window_phases Let_def)

lemma engine_succeeds:
  "(triggered dc \<longrightarrow> segs \<noteq> []) \<Longrightarrow>
   \<exists>segs' dc'. engine c ms sp (map Inr pss) dc segs = (Inr segs', dc')"
proof (induction pss arbitrary: dc segs)
  case Nil
  then show ?case by simp
next
  case (Cons q pss)
  have "triggered (dc\<lparr>state := snd q\<rparr>) \<longrightarrow> segs \<noteq> []" using Cons.prems by simp
  from detect_window_succeeds[OF this, of c ms sp "fst q"]
  obtain segs2 dc2 where
    dw: "detect_window c ms sp (fst q) (dc\<lparr>state := snd q\<rparr>) segs = (Inr segs2, dc2)"
    and j: "triggered dc2 \<longrightarrow> segs2 \<noteq> []"
    by blast
  from Cons.IH[OF j] show ?case using dw by (simp add: engine_Inr)
qed

section \<open>Evaluation on the test bench\<close>

lemmas bench_defs = demo_store_def demo_cfg_def wide_pad_store_def NewContext_def stateLen_def
  probe_run_def one_burst_def exact_burst_def two_bursts_def held_burst_def carried_ctx_def
  silence_def six_windows_def

lemmas run_simps = Detect_def go_div_def wrap64_def windowSize_def detect_loop_step detect_loop_done
  infer_def slice_def detect_window_def Let_def off_threshold_half off_threshold_raised

lemmas probs_simps = window_probs_def window_outcomes_step window_outcomes_done
  windowSize_def slice_def

lemmas speech_simps = IsSpeech_def IsSpeechQuick_def isSpeech_loop_step isSpeech_loop_done
  isSpeechQuick_loop_step isSpeechQuick_loop_done

text \<open>At threshold 0.5 the code compares with \<open>11744051 / 2\<^sup>2\<^sup>5\<close>, a little below 0.35. A
  context in speech that is fed windows of exactly that level, which is below 0.35, sees
  no window below the value it compares with: no end is marked, and \<^verbatim>\<open>Detect\<close>
  returns the empty list.\<close>

lemma edge_level_not_low:
  "off_threshold (cfg (demo_store 0)) = 11744051 / 33554432 \<and>
   (11744051 / 33554432 :: real) < 0.35 \<and>
   Detect probe_run demo_store (Some carried_ctx) (replicate 2561 (11744051 / 33554432)) =
     (Inr [], Some (carried_ctx\<lparr>state := replicate 256 11, currSample := 5632\<rparr>), demo_store)"
  by (simp add: bench_defs run_simps)

section \<open>Input shorter than one window\<close>

text \<open>Claim C6. When the input is strictly shorter than the window size of the
  configuration, each of \<^verbatim>\<open>Detect\<close>, \<^verbatim>\<open>IsSpeech\<close> and \<^verbatim>\<open>IsSpeechQuick\<close> called on a
  context bound to a model returns the error "not enough samples" in place of segments or
  of a verdict, and the context (recurrent state, cursor, trigger flag, pending end) and
  the store of shared models are returned as they were passed.\<close>

theorem short_input_not_enough_samples:
  assumes "model dc = Some a" and "int (length pcm) < windowSize (cfg (st a))"
  shows "Detect run st (Some dc) pcm = (Inl NotEnoughSamples, Some dc, st) \<and>
         IsSpeech run st (Some dc) pcm = (Inl NotEnoughSamples, Some dc, st) \<and>
         IsSpeechQuick run st (Some dc) pcm maxWindows = (Inl NotEnoughSamples, Some dc, st)"
  using assms by (simp add: Detect_def IsSpeech_def IsSpeechQuick_def)

theorem short_input_not_enough_samples_witness:
  "model (NewContext 64 (Some 0)) = Some 0 \<and>
   int (length (replicate 511 (0.8::real))) < windowSize (cfg (demo_store 0)) \<and>
   Detect probe_run demo_store (Some (NewContext 64 (Some 0))) (replicate 511 0.8) =
     (Inl NotEnoughSamples, Some (NewContext 64 (Some 0)), demo_store) \<and>
   IsSpeech probe_run demo_store (Some (NewContext 64 (Some 0))) (replicate 511 0.8) =
     (Inl NotEnoughSamples, Some (NewContext 64 (Some 0)), demo_store) \<and>
   IsSpeechQuick probe_run demo_store (Some (NewContext 64 (Some 0))) (replicate 511 0.8) 3 =
     (Inl NotEnoughSamples, Some (NewContext 64 (Some 0)), demo_store)"
proof -
  have m: "model (NewContext 64 (Some 0)) = Some 0"
    by (simp add: NewContext_def)
  have l: "int (length (replicate 511 (0.8::real))) < windowSize (cfg (demo_store 0))"
    by (simp add: windowSize_def demo_store_def demo_cfg_def)
  show ?thesis
    using m l short_input_not_enough_samples
      [of "NewContext 64 (Some 0)" 0 "replicate 511 0.8" demo_store probe_run 3]
    by simp
qed

section \<open>The window cap of \<^verbatim>\<open>IsSpeechQuick\<close>\<close>

text \<open>Claim C9. For every input and every window cap that is zero or negative,
  \<^verbatim>\<open>IsSpeechQuick\<close> returns what it returns with the cap 5: the same verdict or error, and
  the same context.\<close>

theorem IsSpeechQuick_default_cap:
  "maxWindows \<le> 0 \<Longrightarrow>
   IsSpeechQuick run st dcp pcm maxWindows = IsSpeechQuick run st dcp pcm 5"
  by (simp add: IsSpeechQuick_def)

theorem IsSpeechQuick_default_cap_witness:
  "(0::int) \<le> 0 \<and> (-3::int) \<le> 0 \<and>
   IsSpeechQuick probe_run demo_store (Some (NewContext 64 (Some 0))) one_burst 0 =
     IsSpeechQuick probe_run demo_store (Some (NewContext 64 (Some 0))) one_burst 5 \<and>
   IsSpeechQuick probe_run demo_store (Some (NewContext 64 (Some 0))) one_burst (-3) =
     IsSpeechQuick probe_run demo_store (Some (NewContext 64 (Some 0))) one_burst 5"
  using IsSpeechQuick_default_cap[of 0 probe_run demo_store "Some (NewContext 64 (Some 0))" one_burst]
    IsSpeechQuick_default_cap[of "-3" probe_run demo_store "Some (NewContext 64 (Some 0))" one_burst]
  by simp

section \<open>Order of the segments\<close>

text \<open>Claim C3. Whatever probabilities the session returns during one call of
  \<^verbatim>\<open>Detect\<close>, the start times of the segments returned are non-negative and
  non-decreasing in output order, and every segment whose end is set (not zero) ends
  after it starts, on the calls where nothing wraps: the sample rate is positive, the
  padding in samples that the code computes from the configuration is not negative, the
  cursor of the context is not negative, and the cursor, the length of the input and the
  padding together stay below \<open>2\<^sup>5\<^sup>3\<close>, where no operation on a 64-bit integer wraps and
  every integer converts to \<^verbatim>\<open>float64\<close> as it is. For every configuration, as the
  claim stands, it fails: the evaluation that follows the theorem has a segment that ends
  before it starts.\<close>

theorem segments_ordered:
  assumes "model dc = Some a"
    and "0 < SampleRate (cfg (st a))"
    and "0 \<le> go_div (wrap64 (SpeechPadMs (cfg (st a)) * SampleRate (cfg (st a)))) 1000"
    and "0 \<le> currSample dc"
    and "currSample dc + int (length pcm) +
           go_div (wrap64 (SpeechPadMs (cfg (st a)) * SampleRate (cfg (st a)))) 1000 < 2 ^ 53"
    and "Detect run st (Some dc) pcm = (Inr segs, dcp, st')"
  shows "(\<forall>s \<in> set segs. 0 \<le> SpeechStartAt s) \<and>
         sorted (map SpeechStartAt segs) \<and>
         (\<forall>s \<in> set segs. SpeechEndAt s \<noteq> 0 \<longrightarrow> SpeechStartAt s < SpeechEndAt s)"
proof -
  define sp where "sp = go_div (wrap64 (SpeechPadMs (cfg (st a)) * SampleRate (cfg (st a)))) 1000"
  define ms where "ms = go_div (wrap64 (MinSilenceDurationMs (cfg (st a)) * SampleRate (cfg (st a)))) 1000"
  have sp0: "0 \<le> sp" using assms(3) by (simp add: sp_def)
  have "currSample dc + int (length pcm) + sp < 2 ^ 53"
    using assms(5) by (simp add: sp_def)
  then have bnd: "currSample dc + (int (length pcm) - 0) + sp < 2 ^ 63" by simp
  obtain dc' where loop: "detect_loop run st a pcm ms sp 0 dc [] = (Inr segs, dc')"
    using assms(1,6) unfolding Detect_def sp_def ms_def
    by (auto simp: Let_def split: if_splits prod.splits)
  have i0: "(0::int) \<le> 0" by simp
  have "seg_inv (cfg (st a)) sp (currSample dc) (tempEnd dc) []"
    using assms(4) by (simp add: seg_inv_def)
  then have "seg_inv (cfg (st a)) sp (currSample dc') (tempEnd dc') segs"
    using detect_loop_inv[OF assms(2) sp0 i0 _ bnd loop] by blast
  then show ?thesis unfolding seg_inv_def by auto
qed

lemma two_bursts_run:
  "Detect probe_run demo_store (Some (NewContext 64 (Some 0))) two_bursts =
     (Inr [\<lparr>SpeechStartAt = 0.002, SpeechEndAt = 0.126\<rparr>, \<lparr>SpeechStartAt = 0.194, SpeechEndAt = 0\<rparr>],
      Some \<lparr>model = Some 0, state = replicate 256 9, ctx = replicate 64 0,
             currSample = 4608, triggered = True, tempEnd = 4608\<rparr>,
      demo_store)"
  by (simp add: bench_defs run_simps)

lemma demo_padding:
  "go_div (wrap64 (SpeechPadMs (cfg (demo_store 0)) * SampleRate (cfg (demo_store 0)))) 1000 = 480"
  by (simp add: demo_store_def demo_cfg_def go_div_def wrap64_def)

theorem segments_ordered_witness:
  "model (NewContext 64 (Some 0)) = Some 0 \<and>
   0 < SampleRate (cfg (demo_store 0)) \<and>
   0 \<le> go_div (wrap64 (SpeechPadMs (cfg (demo_store 0)) * SampleRate (cfg (demo_store 0)))) 1000 \<and>
   0 \<le> currSample (NewContext 64 (Some 0)) \<and>
   currSample (NewContext 64 (Some 0)) + int (length two_bursts) +
     go_div (wrap64 (SpeechPadMs (cfg (demo_store 0)) * SampleRate (cfg (demo_store 0)))) 1000 < 2 ^ 53 \<and>
   fst (Detect probe_run demo_store (Some (NewContext 64 (Some 0))) two_bursts) =
     Inr [\<lparr>SpeechStartAt = 0.002, SpeechEndAt = 0.126\<rparr>, \<lparr>SpeechStartAt = 0.194, SpeechEndAt = 0\<rparr>] \<and>
   sorted (map SpeechStartAt
     [\<lparr>SpeechStartAt = 0.002, SpeechEndAt = 0.126\<rparr>, \<lparr>SpeechStartAt = 0.194, SpeechEndAt = 0\<rparr>]) \<and>
   (0::real) \<le> 0.002 \<and> (0.002::real) < 0.126"
proof -
  have m: "model (NewContext 64 (Some 0)) = Some 0" by (simp add: NewContext_def)
  have sr: "0 < SampleRate (cfg (demo_store 0))" by (simp add: demo_store_def demo_cfg_def)
  have sp: "0 \<le> go_div (wrap64 (SpeechPadMs (cfg (demo_store 0)) * SampleRate (cfg (demo_store 0)))) 1000"
    by (simp add: demo_padding)
  have c: "0 \<le> currSample (NewContext 64 (Some 0))" by (simp add: NewContext_def)
  have b: "currSample (NewContext 64 (Some 0)) + int (length two_bursts) +
     go_div (wrap64 (SpeechPadMs (cfg (demo_store 0)) * SampleRate (cfg (demo_store 0)))) 1000 < 2 ^ 53"
    by (simp add: demo_padding NewContext_def two_bursts_def)
  show ?thesis
    using segments_ordered[OF m sr sp c b two_bursts_run] m sr sp c b
    by (simp add: two_bursts_run)
qed

text \<open>The padding of \<open>2\<^sup>5\<^sup>7 - 64\<close> ms is not negative, yet its product with the sample
  rate 16000 wraps to -1024000 and the code pads with -1024 samples: the one segment of
  \<open>one_burst\<close> starts at (1024 - 512 + 1024) / 16000 = 0.096 s and ends at
  (2048 - 1024) / 16000 = 0.064 s, before its start.\<close>

theorem segments_out_of_order:
  "0 < SampleRate (cfg (wide_pad_store 0)) \<and> 0 \<le> SpeechPadMs (cfg (wide_pad_store 0)) \<and>
   go_div (wrap64 (SpeechPadMs (cfg (wide_pad_store 0)) * SampleRate (cfg (wide_pad_store 0)))) 1000
     = - 1024 \<and>
   fst (Detect probe_run wide_pad_store (Some (NewContext 64 (Some 0))) one_burst) =
     Inr [\<lparr>SpeechStartAt = 0.096, SpeechEndAt = 0.064\<rparr>] \<and>
   \<not> (0.096 :: real) < 0.064"
  by (simp add: bench_defs run_simps)

section \<open>Hysteresis\<close>

text \<open>Claim C4. A context that is not in speech receives an input on whose windows the
  session returns probabilities below the threshold, then one probability at or above
  it, and from then on only probabilities strictly between the threshold minus 0.15 and
  the threshold; the probabilities from the one that reaches the threshold on are
  \<^verbatim>\<open>float32\<close> values, as every probability the session returns is. \<^verbatim>\<open>Detect\<close> then
  returns exactly one segment, opened at the window that reached the threshold, with its
  end unset (zero); the context is left in speech and its pending end is zero, so that no
  silence was ever measured against the minimum.\<close>

theorem hysteresis_never_confirms_end:
  assumes "model dc = Some a" and "\<not> triggered dc"
    and "window_probs run (cfg (st a)) pcm (state dc) = map Inr (pre @ [p] @ post)"
    and "\<forall>q \<in> set pre. q < Threshold (cfg (st a))"
    and "Threshold (cfg (st a)) \<le> p"
    and "\<forall>q \<in> set post. Threshold (cfg (st a)) - 0.15 < q \<and> q < Threshold (cfg (st a))"
    and "\<forall>q \<in> set (p # post). is_float32 q"
  shows "\<exists>dc'. Detect run st (Some dc) pcm =
           (Inr [\<lparr>SpeechStartAt =
                    start_bound (cfg (st a))
                      (go_div (wrap64 (SpeechPadMs (cfg (st a)) * SampleRate (cfg (st a)))) 1000)
                      (wrap64 (currSample dc + windowSize (cfg (st a)) * (int (length pre) + 1))),
                  SpeechEndAt = 0\<rparr>],
            Some dc', st) \<and>
         triggered dc' \<and> tempEnd dc' = 0"
proof -
  let ?c = "cfg (st a)"
  define ms where "ms = go_div (wrap64 (MinSilenceDurationMs ?c * SampleRate ?c)) 1000"
  define sp where "sp = go_div (wrap64 (SpeechPadMs ?c * SampleRate ?c)) 1000"
  obtain pss where outs: "window_outcomes run ?c pcm 0 (state dc) = map Inr pss"
      and fsts: "map fst pss = pre @ [p] @ post"
    using probs_all_Inr[OF assms(3)[unfolded window_probs_def]] by blast
  from fsts obtain pss1 q pss2 where pss: "pss = pss1 @ [q] @ pss2"
      and f1: "map fst pss1 = pre" and fq: "fst q = p" and f2: "map fst pss2 = post"
    by (auto simp: map_eq_append_conv)
  obtain s where q: "q = (p, s)" using fq by (cases q) auto
  have len: "windowSize ?c \<le> int (length pcm)"
    using outs pss by (intro window_outcomes_nonempty[of run ?c pcm "state dc"]) simp
  have idle: "\<forall>x \<in> set pss1. fst x < Threshold ?c"
    using assms(4) f1 by fastforce
  have hold: "\<forall>x \<in> set pss2. \<not> fst x < off_threshold ?c"
  proof
    fix x assume "x \<in> set pss2"
    then have "fst x \<in> set post" using f2 by force
    then have "is_float32 (fst x)" and "Threshold ?c - 0.15 \<le> fst x"
      using assms(6,7) by auto
    from off_threshold_le[OF this] show "\<not> fst x < off_threshold ?c" by simp
  qed
  have "is_float32 p" and "Threshold ?c - 0.15 \<le> p" using assms(5,7) by auto
  from off_threshold_le[OF this] have pn: "\<not> p < off_threshold ?c" by simp
  obtain d1 where e1: "engine ?c ms sp (map Inr pss1) dc [] = (Inr [], d1)"
      and d1: "\<not> triggered d1"
        "wrap64 (currSample d1) = wrap64 (currSample dc + windowSize ?c * int (length pss1))"
    using engine_idle[OF assms(2) idle, of ms sp "[]"] by blast
  have l1: "length pss1 = length pre" using f1 by (metis length_map)
  define n where "n = wrap64 (currSample d1 + windowSize ?c)"
  have "n = wrap64 (wrap64 (currSample d1) + windowSize ?c)"
    unfolding n_def by (simp add: wrap64_add_left)
  also have "\<dots> = wrap64 (currSample dc + windowSize ?c * int (length pss1) + windowSize ?c)"
    unfolding d1(2) by (simp add: wrap64_add_left)
  also have "\<dots> = wrap64 (currSample dc + windowSize ?c * (int (length pre) + 1))"
    unfolding l1 by (simp add: algebra_simps)
  finally have n: "n = wrap64 (currSample dc + windowSize ?c * (int (length pre) + 1))" .
  let ?seg = "\<lparr>SpeechStartAt = start_bound ?c sp n, SpeechEndAt = 0\<rparr>"
  let ?d2 = "d1\<lparr>state := s, currSample := n, tempEnd := 0, triggered := True\<rparr>"
  have e2: "detect_window ?c ms sp p (d1\<lparr>state := s\<rparr>) [] = (Inr [?seg], ?d2)"
    using detect_window_open[of "d1\<lparr>state := s\<rparr>" ?c p ms sp "[]"] d1(1) assms(5) pn
    by (simp add: n_def)
  obtain d3 where e3: "engine ?c ms sp (map Inr pss2) ?d2 [?seg] = (Inr [?seg], d3)"
      and d3: "triggered d3" "tempEnd d3 = 0"
    using engine_hold[of ?d2 pss2 ?c ms sp "[?seg]"] hold by auto
  have "engine ?c ms sp (map Inr pss) dc [] = (Inr [?seg], d3)"
    unfolding pss using e1 e2 e3 q by (simp add: engine_append)
  then show ?thesis
    using Detect_engine[of dc a st pcm run] assms(1) len outs d3
    by (simp add: ms_def sp_def n)
qed

lemma held_burst_probs:
  "window_probs probe_run (cfg (demo_store 0)) held_burst (state (NewContext 64 (Some 0))) =
     map Inr ([0.125] @ [0.75] @ [0.375, 0.375, 0.375, 0.375])"
  by (simp add: window_probs_def bench_defs window_outcomes_step window_outcomes_done
      windowSize_def slice_def)

lemma held_burst_run:
  "Detect probe_run demo_store (Some (NewContext 64 (Some 0))) held_burst =
     (Inr [\<lparr>SpeechStartAt = 0.002, SpeechEndAt = 0\<rparr>],
      Some \<lparr>model = Some 0, state = replicate 256 6, ctx = replicate 64 0,
             currSample = 3072, triggered = True, tempEnd = 0\<rparr>,
      demo_store)"
  by (simp add: bench_defs run_simps)

lemma held_burst_float32: "is_float32 0.75 \<and> is_float32 0.375 \<and> is_float32 0.125"
  by (simp add: is_float32_def f32_eval)

theorem hysteresis_never_confirms_end_witness:
  "model (NewContext 64 (Some 0)) = Some 0 \<and> \<not> triggered (NewContext 64 (Some 0)) \<and>
   window_probs probe_run (cfg (demo_store 0)) held_burst (state (NewContext 64 (Some 0))) =
     map Inr ([0.125] @ [0.75] @ [0.375, 0.375, 0.375, 0.375]) \<and>
   (0.125::real) < Threshold (cfg (demo_store 0)) \<and>
   Threshold (cfg (demo_store 0)) \<le> 0.75 \<and>
   Threshold (cfg (demo_store 0)) - 0.15 < 0.375 \<and> 0.375 < Threshold (cfg (demo_store 0)) \<and>
   is_float32 0.75 \<and> is_float32 0.375 \<and>
   Detect probe_run demo_store (Some (NewContext 64 (Some 0))) held_burst =
     (Inr [\<lparr>SpeechStartAt = 0.002, SpeechEndAt = 0\<rparr>],
      Some \<lparr>model = Some 0, state = replicate 256 6, ctx = replicate 64 0,
             currSample = 3072, triggered = True, tempEnd = 0\<rparr>,
      demo_store)"
  using hysteresis_never_confirms_end
    [of "NewContext 64 (Some 0)" 0 probe_run demo_store held_burst "[0.125]" "0.75"
        "[0.375, 0.375, 0.375, 0.375]"]
    held_burst_probs held_burst_run held_burst_float32
  by (simp add: demo_store_def demo_cfg_def NewContext_def)

section \<open>A confirmed end without an open segment\<close>

text \<open>Claim C5. During a call of \<^verbatim>\<open>Detect\<close>, let the windows before some window have been
  processed without error and without opening a segment, so that the list of segments of
  this call is still empty. If the context is in speech, the probability of that window,
  a \<^verbatim>\<open>float32\<close> value, is below the value the code computes for the threshold minus 0.15,
  and the samples elapsed since the pending end (set at this window when none was
  pending) are not fewer than the minimum silence, the engine confirms an end;
  \<^verbatim>\<open>Detect\<close> then returns the error "unexpected speech end". A context is in that
  state when an earlier call on the same stream ended inside speech, as the call on
  \<open>held_burst\<close> leaves \<open>carried_ctx\<close>.\<close>

theorem unexpected_speech_end_surfaced:
  assumes "model dc = Some a"
    and "window_outcomes run (cfg (st a)) pcm 0 (state dc) = pre @ Inr (p, s) # rest"
    and "engine (cfg (st a))
           (go_div (wrap64 (MinSilenceDurationMs (cfg (st a)) * SampleRate (cfg (st a)))) 1000)
           (go_div (wrap64 (SpeechPadMs (cfg (st a)) * SampleRate (cfg (st a)))) 1000)
           pre dc [] = (Inr [], dck)"
    and "triggered dck" and "is_float32 p" and "p < off_threshold (cfg (st a))"
    and "\<not> wrap64 (wrap64 (currSample dck + windowSize (cfg (st a))) -
                  (if tempEnd dck = 0 then wrap64 (currSample dck + windowSize (cfg (st a)))
                   else tempEnd dck))
           < go_div (wrap64 (MinSilenceDurationMs (cfg (st a)) * SampleRate (cfg (st a)))) 1000"
  shows "fst (Detect run st (Some dc) pcm) = Inl UnexpectedSpeechEnd"
proof -
  let ?c = "cfg (st a)"
  let ?ms = "go_div (wrap64 (MinSilenceDurationMs ?c * SampleRate ?c)) 1000"
  let ?sp = "go_div (wrap64 (SpeechPadMs ?c * SampleRate ?c)) 1000"
  have len: "windowSize ?c \<le> int (length pcm)"
    using assms(2) by (intro window_outcomes_nonempty[of run ?c pcm "state dc"]) simp
  have pt: "p < Threshold ?c" using off_threshold_below[OF assms(5,6)] .
  have "fst (detect_window ?c ?ms ?sp p (dck\<lparr>state := s\<rparr>) []) = Inl UnexpectedSpeechEnd"
    using assms(4,6,7) pt by (auto simp: detect_window_low Let_def split: if_splits)
  then have "fst (engine ?c ?ms ?sp (Inr (p, s) # rest) dck []) = Inl UnexpectedSpeechEnd"
    by (auto split: prod.splits sum.splits)
  then have "fst (engine ?c ?ms ?sp (pre @ Inr (p, s) # rest) dc []) = Inl UnexpectedSpeechEnd"
    using assms(3) by (simp add: engine_append)
  then show ?thesis
    using Detect_engine[of dc a st pcm run] assms(1,2) len by (simp add: split_beta)
qed

lemma silence_outcomes:
  "window_outcomes probe_run (cfg (demo_store 0)) silence 0 (state carried_ctx) =
     [Inr (0.125, replicate 256 7), Inr (0.125, replicate 256 8), Inr (0.125, replicate 256 9),
      Inr (0.125, replicate 256 10)] @ Inr (0.125, replicate 256 11) # []"
  by (simp add: bench_defs probs_simps)

lemma silence_waiting:
  "engine (cfg (demo_store 0))
     (go_div (wrap64 (MinSilenceDurationMs (cfg (demo_store 0)) * SampleRate (cfg (demo_store 0)))) 1000)
     (go_div (wrap64 (SpeechPadMs (cfg (demo_store 0)) * SampleRate (cfg (demo_store 0)))) 1000)
     [Inr (0.125, replicate 256 7), Inr (0.125, replicate 256 8), Inr (0.125, replicate 256 9),
      Inr (0.125, replicate 256 10)] carried_ctx [] =
   (Inr [], carried_ctx\<lparr>state := replicate 256 10, currSample := 5120, tempEnd := 3584\<rparr>)"
  by (simp add: bench_defs go_div_def wrap64_def windowSize_def detect_window_def Let_def
      off_threshold_half)

lemma silence_level:
  "is_float32 0.125 \<and> 0.125 < off_threshold (cfg (demo_store 0)) \<and>
   off_threshold (cfg (demo_store 0)) = 11744051 / 33554432"
  by (simp add: is_float32_def f32_eval demo_store_def demo_cfg_def off_threshold_half)

theorem unexpected_speech_end_surfaced_witness:
  "model carried_ctx = Some 0 \<and>
   window_outcomes probe_run (cfg (demo_store 0)) silence 0 (state carried_ctx) =
     [Inr (0.125, replicate 256 7), Inr (0.125, replicate 256 8), Inr (0.125, replicate 256 9),
      Inr (0.125, replicate 256 10)] @ Inr (0.125, replicate 256 11) # [] \<and>
   engine (cfg (demo_store 0))
     (go_div (wrap64 (MinSilenceDurationMs (cfg (demo_store 0)) * SampleRate (cfg (demo_store 0)))) 1000)
     (go_div (wrap64 (SpeechPadMs (cfg (demo_store 0)) * SampleRate (cfg (demo_store 0)))) 1000)
     [Inr (0.125, replicate 256 7), Inr (0.125, replicate 256 8), Inr (0.125, replicate 256 9),
      Inr (0.125, replicate 256 10)] carried_ctx [] =
   (Inr [], carried_ctx\<lparr>state := replicate 256 10, currSample := 5120, tempEnd := 3584\<rparr>) \<and>
   triggered (carried_ctx\<lparr>state := replicate 256 10, currSample := 5120, tempEnd := 3584\<rparr>) \<and>
   is_float32 0.125 \<and> 0.125 < off_threshold (cfg (demo_store 0)) \<and>
   \<not> (wrap64 (wrap64 (5120 + 512) - 3584) < go_div (wrap64 (100 * 16000)) 1000) \<and>
   fst (Detect probe_run demo_store (Some carried_ctx) silence) = Inl UnexpectedSpeechEnd"
proof -
  have m: "model carried_ctx = Some 0" by (simp add: carried_ctx_def)
  have t: "triggered (carried_ctx\<lparr>state := replicate 256 10, currSample := 5120, tempEnd := 3584\<rparr>)"
    by (simp add: carried_ctx_def)
  have f: "is_float32 0.125" and l: "0.125 < off_threshold (cfg (demo_store 0))"
    using silence_level by simp_all
  have g: "\<not> wrap64 (wrap64 (currSample (carried_ctx\<lparr>state := replicate 256 10, currSample := 5120, tempEnd := 3584\<rparr>)
                                + windowSize (cfg (demo_store 0))) -
                  (if tempEnd (carried_ctx\<lparr>state := replicate 256 10, currSample := 5120, tempEnd := 3584\<rparr>) = 0
                   then wrap64 (currSample (carried_ctx\<lparr>state := replicate 256 10, currSample := 5120, tempEnd := 3584\<rparr>)
                                + windowSize (cfg (demo_store 0)))
                   else tempEnd (carried_ctx\<lparr>state := replicate 256 10, currSample := 5120, tempEnd := 3584\<rparr>)))
           < go_div (wrap64 (MinSilenceDurationMs (cfg (demo_store 0)) * SampleRate (cfg (demo_store 0)))) 1000"
    by (simp add: demo_store_def demo_cfg_def go_div_def wrap64_def windowSize_def)
  have n: "\<not> (wrap64 (wrap64 (5120 + 512) - 3584) < go_div (wrap64 (100 * 16000)) 1000)"
    by (simp add: go_div_def wrap64_def)
  have d: "fst (Detect probe_run demo_store (Some carried_ctx) silence) = Inl UnexpectedSpeechEnd"
    using unexpected_speech_end_surfaced
      [of carried_ctx 0 probe_run demo_store silence
          "[Inr (0.125, replicate 256 7), Inr (0.125, replicate 256 8), Inr (0.125, replicate 256 9),
            Inr (0.125, replicate 256 10)]"
          "0.125" "replicate 256 11" "[]"
          "carried_ctx\<lparr>state := replicate 256 10, currSample := 5120, tempEnd := 3584\<rparr>",
       OF m silence_outcomes silence_waiting t f l g] .
  show ?thesis
    using m silence_outcomes silence_waiting t f l n d by (intro conjI)
qed

section \<open>Reset\<close>

text \<open>Claim C8. \<^verbatim>\<open>Reset\<close> on a context puts every field but the model pointer at its
  zero value (recurrent state, context buffer, cursor, trigger flag, pending end), which
  is the context \<^verbatim>\<open>NewContext\<close> makes for the same model; hence \<^verbatim>\<open>Detect\<close> on the reset
  context and on a fresh context of the same model returns, for every input and every
  session, the same segments or error and the same context.\<close>

theorem Reset_replay_as_fresh:
  "Reset contextLen (Some dc) = (None, Some (NewContext contextLen (model dc))) \<and>
   Detect run st (snd (Reset contextLen (Some dc))) pcm =
     Detect run st (Some (NewContext contextLen (model dc))) pcm"
  by (cases dc) (simp add: Reset_def NewContext_def)

section \<open>The shared threshold\<close>

text \<open>Claim C7. \<^verbatim>\<open>SetThreshold\<close> called with \<open>v\<close> through a context bound to a model
  leaves the configuration of that model with threshold \<open>v\<close> and every other field as it
  was, which is what \<^verbatim>\<open>GetConfig\<close> then returns; the other models of the store are
  untouched. Every context bound to the same model classifies against \<open>v\<close> from then on:
  \<^verbatim>\<open>Detect\<close> returns what the segmentation engine with threshold \<open>v\<close> (and the timing of
  the configuration) makes of the answers of the session, and \<^verbatim>\<open>IsSpeech\<close> and
  \<^verbatim>\<open>IsSpeechQuick\<close> return true exactly when one of the probabilities they scan
  reaches \<open>v\<close> before an inference fails.\<close>

theorem SetThreshold_shared:
  assumes "model dc = Some a" and "model dc2 = Some a"
  shows "GetConfig (SetThreshold st (Some dc) v) a = (GetConfig st a)\<lparr>Threshold := v\<rparr> \<and>
         Threshold (GetConfig (SetThreshold st (Some dc) v) a) = v \<and>
         (\<forall>b. b \<noteq> a \<longrightarrow> SetThreshold st (Some dc) v b = st b) \<and>
         (windowSize (cfg (st a)) \<le> int (length pcm) \<longrightarrow>
            fst (Detect run (SetThreshold st (Some dc) v) (Some dc2) pcm) =
              fst (engine ((cfg (st a))\<lparr>Threshold := v\<rparr>)
                     (go_div (wrap64 (MinSilenceDurationMs (cfg (st a)) * SampleRate (cfg (st a)))) 1000)
                     (go_div (wrap64 (SpeechPadMs (cfg (st a)) * SampleRate (cfg (st a)))) 1000)
                     (window_outcomes run (cfg (st a)) pcm 0 (state dc2)) dc2 []) \<and>
            fst (IsSpeech run (SetThreshold st (Some dc) v) (Some dc2) pcm) =
              first_speech v (window_outcomes run (cfg (st a)) pcm 0 (replicate stateLen 0)) \<and>
            fst (IsSpeechQuick run (SetThreshold st (Some dc) v) (Some dc2) pcm maxWindows) =
              first_speech v
                (take (nat (if maxWindows \<le> 0 then 5 else maxWindows))
                   (window_outcomes run (cfg (st a)) pcm 0 (replicate stateLen 0))))"
proof -
  let ?c = "cfg (st a)"
  let ?c' = "(cfg (st a))\<lparr>Threshold := v\<rparr>"
  let ?st' = "SetThreshold st (Some dc) v"
  have c': "cfg (?st' a) = ?c'"
    using assms(1) by (simp add: SetThreshold_def)
  have w: "windowSize ?c' = windowSize ?c" by (simp add: windowSize_def)
  have outs: "\<And>s. window_outcomes run ?c' pcm 0 s = window_outcomes run ?c pcm 0 s"
    by (rule window_outcomes_cong) simp
  have g: "GetConfig ?st' a = (GetConfig st a)\<lparr>Threshold := v\<rparr>"
    using c' by (simp add: GetConfig_def)
  have o: "\<forall>b. b \<noteq> a \<longrightarrow> ?st' b = st b"
    using assms(1) by (simp add: SetThreshold_def)
  have d: "fst (Detect run ?st' (Some dc2) pcm) =
             fst (engine ?c'
                    (go_div (wrap64 (MinSilenceDurationMs ?c * SampleRate ?c)) 1000)
                    (go_div (wrap64 (SpeechPadMs ?c * SampleRate ?c)) 1000)
                    (window_outcomes run ?c pcm 0 (state dc2)) dc2 [])"
    if "windowSize ?c \<le> int (length pcm)"
    using Detect_engine[of dc2 a ?st' pcm run] assms(2) that c' w outs
    by (simp add: split_beta)
  have i: "fst (IsSpeech run ?st' (Some dc2) pcm) =
             first_speech v (window_outcomes run ?c pcm 0 (replicate stateLen 0))"
    if "windowSize ?c \<le> int (length pcm)"
    using that assms(2) c' w outs
      isSpeech_loop_first[of "dc2\<lparr>currSample := 0, triggered := False, tempEnd := 0,
                                  state := replicate stateLen 0\<rparr>" a run ?st' pcm 0]
    by (simp add: IsSpeech_def Let_def split_beta)
  have q: "fst (IsSpeechQuick run ?st' (Some dc2) pcm maxWindows) =
             first_speech v
               (take (nat (if maxWindows \<le> 0 then 5 else maxWindows))
                  (window_outcomes run ?c pcm 0 (replicate stateLen 0)))"
    if "windowSize ?c \<le> int (length pcm)"
    using that assms(2) c' w outs
      isSpeechQuick_loop_first[of "dc2\<lparr>currSample := 0, triggered := False, tempEnd := 0,
                                  state := replicate stateLen 0\<rparr>" a run ?st' pcm
                                  "if maxWindows \<le> 0 then 5 else maxWindows" 0 0]
    by (simp add: IsSpeechQuick_def Let_def split_beta)
  show ?thesis using g o d i q by simp
qed

lemma one_burst_run:
  "fst (Detect probe_run demo_store (Some (NewContext 64 (Some 0))) one_burst) =
     Inr [\<lparr>SpeechStartAt = 0.002, SpeechEndAt = 0.158\<rparr>] \<and>
   fst (IsSpeech probe_run demo_store (Some (NewContext 64 (Some 0))) one_burst) = Inr True \<and>
   fst (IsSpeechQuick probe_run demo_store (Some (NewContext 64 (Some 0))) one_burst 3) = Inr True"
  by (simp add: bench_defs run_simps speech_simps)

lemma one_burst_run_raised:
  "fst (Detect probe_run (SetThreshold demo_store (Some carried_ctx) 0.9)
          (Some (NewContext 64 (Some 0))) one_burst) = Inr [] \<and>
   fst (IsSpeech probe_run (SetThreshold demo_store (Some carried_ctx) 0.9)
          (Some (NewContext 64 (Some 0))) one_burst) = Inr False \<and>
   fst (IsSpeechQuick probe_run (SetThreshold demo_store (Some carried_ctx) 0.9)
          (Some (NewContext 64 (Some 0))) one_burst 3) = Inr False"
  by (simp add: bench_defs run_simps speech_simps SetThreshold_def)

theorem SetThreshold_shared_witness:
  "model carried_ctx = Some 0 \<and> model (NewContext 64 (Some 0)) = Some 0 \<and>
   GetConfig (SetThreshold demo_store (Some carried_ctx) 0.9) 0 = demo_cfg\<lparr>Threshold := 0.9\<rparr> \<and>
   Threshold (GetConfig (SetThreshold demo_store (Some carried_ctx) 0.9) 0) = 0.9 \<and>
   SetThreshold demo_store (Some carried_ctx) 0.9 1 = demo_store 1 \<and>
   windowSize (cfg (demo_store 0)) \<le> int (length one_burst) \<and>
   fst (Detect probe_run demo_store (Some (NewContext 64 (Some 0))) one_burst) =
     Inr [\<lparr>SpeechStartAt = 0.002, SpeechEndAt = 0.158\<rparr>] \<and>
   fst (Detect probe_run (SetThreshold demo_store (Some carried_ctx) 0.9)
          (Some (NewContext 64 (Some 0))) one_burst) = Inr [] \<and>
   fst (IsSpeech probe_run demo_store (Some (NewContext 64 (Some 0))) one_burst) = Inr True \<and>
   fst (IsSpeech probe_run (SetThreshold demo_store (Some carried_ctx) 0.9)
          (Some (NewContext 64 (Some 0))) one_burst) = Inr False \<and>
   first_speech 0.9 (window_outcomes probe_run (cfg (demo_store 0)) one_burst 0 (replicate stateLen 0)) =
     Inr False"
proof -
  have m: "model carried_ctx = Some 0" "model (NewContext 64 (Some 0)) = Some 0"
    by (simp_all add: carried_ctx_def NewContext_def)
  have l: "windowSize (cfg (demo_store 0)) \<le> int (length one_burst)"
    by (simp add: bench_defs windowSize_def)
  show ?thesis
    using m l one_burst_run one_burst_run_raised
      SetThreshold_shared[OF m, of demo_store "0.9" one_burst probe_run 3]
    by (simp add: GetConfig_def demo_store_def)
qed

section \<open>Inputs of a whole number of windows\<close>

text \<open>Claim C10. Let the input hold exactly \<open>k\<close> windows, \<open>k\<close> positive, and let the
  context be bound to a model. \<^verbatim>\<open>Detect\<close> does not reject the input as too short, and
  it processes \<open>k - 1\<close> windows only: the session is asked at most \<open>k - 1\<close> times whatever
  it answers; when \<^verbatim>\<open>Detect\<close> returns segments the cursor has advanced by \<open>k - 1\<close>
  windows; and the samples of the final window are never read, since replacing them
  changes nothing of what \<^verbatim>\<open>Detect\<close> returns. \<^verbatim>\<open>Detect\<close> returns segments when the
  context is not in speech at the call and every inference succeeds; it does not on
  every such input, as the evaluation that follows the theorem shows. For an input of
  exactly one
  window \<^verbatim>\<open>Detect\<close> returns the empty list without error and without asking the session,
  and leaves the context, the cursor with it, as it was.\<close>

theorem exact_multiple_drops_last_window:
  assumes "model dc = Some a" and "0 < k"
    and "int (length pcm) = k * windowSize (cfg (st a))"
  shows "fst (Detect run st (Some dc) pcm) \<noteq> Inl NotEnoughSamples \<and>
         length (window_outcomes run (cfg (st a)) pcm 0 (state dc)) \<le> nat (k - 1) \<and>
         (\<forall>segs dcp st'. Detect run st (Some dc) pcm = (Inr segs, dcp, st') \<longrightarrow>
            (\<exists>dc'. dcp = Some dc' \<and>
                   currSample dc' =
                     (if k = 1 then currSample dc
                      else wrap64 (currSample dc + (k - 1) * windowSize (cfg (st a)))))) \<and>
         (\<forall>t. length t = length pcm \<and>
              take (length pcm - nat (windowSize (cfg (st a)))) t =
                take (length pcm - nat (windowSize (cfg (st a)))) pcm \<longrightarrow>
              Detect run st (Some dc) t = Detect run st (Some dc) pcm) \<and>
         (\<forall>pss. \<not> triggered dc \<and>
                window_outcomes run (cfg (st a)) pcm 0 (state dc) = map Inr pss \<longrightarrow>
                (\<exists>segs dc'. Detect run st (Some dc) pcm = (Inr segs, Some dc', st))) \<and>
         (k = 1 \<longrightarrow> Detect run st (Some dc) pcm = (Inr [], Some dc, st))"
proof -
  let ?c = "cfg (st a)"
  let ?w = "windowSize ?c"
  let ?ms = "go_div (wrap64 (MinSilenceDurationMs ?c * SampleRate ?c)) 1000"
  let ?sp = "go_div (wrap64 (SpeechPadMs ?c * SampleRate ?c)) 1000"
  have wpos: "0 < ?w" by (rule windowSize_pos)
  have "1 * ?w \<le> k * ?w" using assms(2) wpos by (intro mult_right_mono) simp_all
  then have len: "?w \<le> int (length pcm)" using assms(3) by simp
  have cnt: "nat ((int (length pcm) - 0 - 1) div ?w) = nat (k - 1)"
    unfolding assms(3) using count_exact[OF wpos assms(2)] by simp
  have D: "Detect run st (Some dc) pcm =
     (case engine ?c ?ms ?sp (window_outcomes run ?c pcm 0 (state dc)) dc [] of
        (r, dc') \<Rightarrow> (r, Some dc', st))"
    using Detect_engine[of dc a st pcm run] assms(1) len by simp
  have p1: "fst (Detect run st (Some dc) pcm) \<noteq> Inl NotEnoughSamples"
  proof
    assume e: "fst (Detect run st (Some dc) pcm) = Inl NotEnoughSamples"
    obtain r d where ed: "engine ?c ?ms ?sp (window_outcomes run ?c pcm 0 (state dc)) dc [] = (r, d)"
      by (cases "engine ?c ?ms ?sp (window_outcomes run ?c pcm 0 (state dc)) dc []")
    with e D have "r = Inl NotEnoughSamples" by simp
    with engine_errors[of ?c ?ms ?sp _ dc "[]" NotEnoughSamples d] ed show False by auto
  qed
  have p2: "length (window_outcomes run ?c pcm 0 (state dc)) \<le> nat (k - 1)"
    using window_outcomes_length[of run ?c pcm 0 "state dc"] cnt by simp
  have p3: "\<exists>dc'. dcp = Some dc' \<and>
              currSample dc' = (if k = 1 then currSample dc
                                else wrap64 (currSample dc + (k - 1) * ?w))"
    if "Detect run st (Some dc) pcm = (Inr segs, dcp, st')" for segs dcp st'
  proof -
    obtain r dc' where l0: "detect_loop run st a pcm ?ms ?sp 0 dc [] = (r, dc')"
      by (cases "detect_loop run st a pcm ?ms ?sp 0 dc []")
    have "r = Inr segs" and d: "dcp = Some dc'"
      using that l0 assms(1) len by (simp_all add: Detect_def Let_def)
    with l0 have l: "detect_loop run st a pcm ?ms ?sp 0 dc [] = (Inr segs, dc')" by simp
    have steps: "currSample dc' = ((\<lambda>n. wrap64 (n + ?w)) ^^ nat (k - 1)) (currSample dc)"
      using detect_loop_cursor[OF l] unfolding cnt .
    have "currSample dc' = (if k = 1 then currSample dc
                            else wrap64 (currSample dc + (k - 1) * ?w))"
    proof (cases "k = 1")
      case True
      then show ?thesis using steps by simp
    next
      case False
      then obtain m where m: "nat (k - 1) = Suc m"
        using assms(2) by (cases "nat (k - 1)") auto
      then have km: "int m + 1 = k - 1" by linarith
      have "currSample dc' = wrap64 (currSample dc + ?w * (int m + 1))"
        using steps unfolding m cursor_advance .
      then show ?thesis using False unfolding km by (simp add: mult.commute)
    qed
    then show ?thesis using d by simp
  qed
  have p4: "Detect run st (Some dc) t = Detect run st (Some dc) pcm"
    if "length t = length pcm \<and> take (length pcm - nat ?w) t = take (length pcm - nat ?w) pcm"
    for t
  proof -
    have "?w dvd int (length pcm)" using assms(3) by simp
    then have "window_outcomes run ?c t 0 (state dc) = window_outcomes run ?c pcm 0 (state dc)"
      using that by (intro window_outcomes_prefix) simp_all
    moreover have "Detect run st (Some dc) t =
      (case engine ?c ?ms ?sp (window_outcomes run ?c t 0 (state dc)) dc [] of
         (r, dc') \<Rightarrow> (r, Some dc', st))"
      using Detect_engine[of dc a st t run] assms(1) len that by simp
    ultimately show ?thesis using D by simp
  qed
  have p5: "Detect run st (Some dc) pcm = (Inr [], Some dc, st)" if "k = 1"
    using that assms(1,3) by (simp add: Detect_def detect_loop_done)
  have p6: "\<exists>segs dc'. Detect run st (Some dc) pcm = (Inr segs, Some dc', st)"
    if "\<not> triggered dc \<and> window_outcomes run ?c pcm 0 (state dc) = map Inr pss" for pss
  proof -
    have "triggered dc \<longrightarrow> ([]::Segment list) \<noteq> []" using that by simp
    from engine_succeeds[OF this, of ?c ?ms ?sp pss]
    obtain segs dc' where "engine ?c ?ms ?sp (map Inr pss) dc [] = (Inr segs, dc')" by blast
    then show ?thesis using D that by simp
  qed
  show ?thesis using p1 p2 p3 p4 p5 p6 by blast
qed

lemma two_windows_run:
  "Detect probe_run demo_store (Some (NewContext 64 (Some 0))) (replicate 1024 0.8) =
     (Inr [\<lparr>SpeechStartAt = 0, SpeechEndAt = 0\<rparr>],
      Some \<lparr>model = Some 0, state = replicate 256 1, ctx = replicate 64 0,
             currSample = 512, triggered = True, tempEnd = 0\<rparr>,
      demo_store)"
  by (simp add: bench_defs run_simps)

theorem exact_multiple_drops_last_window_witness:
  "model (NewContext 64 (Some 0)) = Some 0 \<and> (0::int) < 2 \<and>
   int (length (replicate 1024 (0.8::real))) = 2 * windowSize (cfg (demo_store 0)) \<and>
   Detect probe_run demo_store (Some (NewContext 64 (Some 0))) (replicate 1024 0.8) =
     (Inr [\<lparr>SpeechStartAt = 0, SpeechEndAt = 0\<rparr>],
      Some \<lparr>model = Some 0, state = replicate 256 1, ctx = replicate 64 0,
             currSample = 512, triggered = True, tempEnd = 0\<rparr>,
      demo_store) \<and>
   length (window_outcomes probe_run (cfg (demo_store 0)) (replicate 1024 0.8) 0
             (state (NewContext 64 (Some 0)))) \<le> nat (2 - 1) \<and>
   Detect probe_run demo_store (Some (NewContext 64 (Some 0)))
       (replicate 512 0.8 @ replicate 512 0.1) =
     Detect probe_run demo_store (Some (NewContext 64 (Some 0))) (replicate 1024 0.8) \<and>
   int (length (replicate 512 (0.8::real))) = 1 * windowSize (cfg (demo_store 0)) \<and>
   Detect probe_run demo_store (Some (NewContext 64 (Some 0))) (replicate 512 0.8) =
     (Inr [], Some (NewContext 64 (Some 0)), demo_store)"
proof -
  have m: "model (NewContext 64 (Some 0)) = Some 0" by (simp add: NewContext_def)
  have l2: "int (length (replicate 1024 (0.8::real))) = 2 * windowSize (cfg (demo_store 0))"
    and l1: "int (length (replicate 512 (0.8::real))) = 1 * windowSize (cfg (demo_store 0))"
    by (simp_all add: demo_store_def demo_cfg_def windowSize_def)
  have t: "length (replicate 512 (0.8::real) @ replicate 512 0.1) = length (replicate 1024 (0.8::real)) \<and>
           take (length (replicate 1024 (0.8::real)) - nat (windowSize (cfg (demo_store 0))))
             (replicate 512 (0.8::real) @ replicate 512 0.1) =
           take (length (replicate 1024 (0.8::real)) - nat (windowSize (cfg (demo_store 0))))
             (replicate 1024 0.8)"
    by (simp add: demo_store_def demo_cfg_def windowSize_def)
  have k2: "(0::int) < 2" and k1: "(0::int) < 1" by simp_all
  note two = exact_multiple_drops_last_window
      [of "NewContext 64 (Some 0)" 0 2 "replicate 1024 0.8" demo_store probe_run, OF m k2 l2]
  note one = exact_multiple_drops_last_window
      [of "NewContext 64 (Some 0)" 0 1 "replicate 512 0.8" demo_store probe_run, OF m k1 l1]
  have c2: "length (window_outcomes probe_run (cfg (demo_store 0)) (replicate 1024 0.8) 0
             (state (NewContext 64 (Some 0)))) \<le> nat (2 - 1)"
    using two by blast
  have c4: "Detect probe_run demo_store (Some (NewContext 64 (Some 0)))
       (replicate 512 0.8 @ replicate 512 0.1) =
     Detect probe_run demo_store (Some (NewContext 64 (Some 0))) (replicate 1024 0.8)"
    using two t by blast
  have c5: "Detect probe_run demo_store (Some (NewContext 64 (Some 0))) (replicate 512 0.8) =
     (Inr [], Some (NewContext 64 (Some 0)), demo_store)"
    using one by blast
  show ?thesis
    using m l1 l2 c2 c4 c5 two_windows_run by (intro conjI) simp_all
qed

text \<open>An input of six windows for a context that an earlier call left in speech: the
  five windows that \<^verbatim>\<open>Detect\<close> infers are silent, the silence reaches 2048 samples at
  the fifth, the end is confirmed with no segment of this call to close, and \<^verbatim>\<open>Detect\<close>
  returns the error "unexpected speech end".\<close>

theorem six_windows_unexpected_end:
  "model carried_ctx = Some 0 \<and>
   int (length six_windows) = 6 * windowSize (cfg (demo_store 0)) \<and>
   fst (Detect probe_run demo_store (Some carried_ctx) six_windows) = Inl UnexpectedSpeechEnd"
  by (simp add: bench_defs run_simps)

section \<open>The scenario of the specification\<close>

text \<open>Claim C2. The configuration has sample rate 16000, threshold 0.5, minimum silence
  100 ms (1600 samples) and padding 30 ms (480 samples); the context is fresh. The input
  \<open>exact_burst\<close> is eight windows of 512 samples, on which the session returns the
  probabilities 0.1, 0.8, 0.8, 0.1 and then 0.1 four times: the four windows of the
  scenario and trailing windows of 2048 silent samples, more than the 1600 required, so
  that one segment is due with start (1024 - 512 - 480) / 16000 = 0.002 s and a
  confirmed end. The code infers seven of the eight windows, the test
  \<^verbatim>\<open>i < len(pcm)-windowSize\<close> failing at the last; the silence it has measured is then
  3584 - 2048 = 1536 samples, and it returns the segment with its end unset. With one
  sample more (\<open>one_burst\<close>) the eighth window is inferred and the end is confirmed, at
  (2048 + 480) / 16000 = 0.158 s.\<close>

theorem scenario_exact_windows_end_unset:
  "int (length exact_burst) = 8 * windowSize (cfg (demo_store 0)) \<and>
   map (\<lambda>i. exact_burst ! (512 * i)) [0, 1, 2, 3, 4, 5, 6, 7] =
     [0.1, 0.8, 0.8, 0.1, 0.1, 0.1, 0.1, 0.1] \<and>
   window_probs probe_run (cfg (demo_store 0)) exact_burst (state (NewContext 64 (Some 0))) =
     map Inr [0.1, 0.8, 0.8, 0.1, 0.1, 0.1, 0.1] \<and>
   Detect probe_run demo_store (Some (NewContext 64 (Some 0))) exact_burst =
     (Inr [\<lparr>SpeechStartAt = 0.002, SpeechEndAt = 0\<rparr>],
      Some \<lparr>model = Some 0, state = replicate 256 7, ctx = replicate 64 0,
             currSample = 3584, triggered = True, tempEnd = 2048\<rparr>,
      demo_store) \<and>
   window_probs probe_run (cfg (demo_store 0)) one_burst (state (NewContext 64 (Some 0))) =
     map Inr [0.1, 0.8, 0.8, 0.1, 0.1, 0.1, 0.1, 0.1] \<and>
   fst (Detect probe_run demo_store (Some (NewContext 64 (Some 0))) one_burst) =
     Inr [\<lparr>SpeechStartAt = 0.002, SpeechEndAt = 0.158\<rparr>]"
  by (simp add: bench_defs run_simps probs_simps nth_append)

section \<open>The windows of an input\<close>

text \<open>Claim C1. For every input of at least one window, \<^verbatim>\<open>Detect\<close> is to process
  every complete window, that is the length divided by the window size, rounded down,
  advancing the cursor by one window size at each, and to drop only the trailing samples
  that do not fill a window. The code visits the windows that start at 0, one window
  size apart, while the start index is below the length minus the window size. An input
  of 512 samples at 16 kHz holds one complete window (512 div 512 = 1) and passes the
  length test of \<^verbatim>\<open>Detect\<close>, yet the test \<^verbatim>\<open>i < len(pcm)-windowSize\<close> fails at \<open>i = 0\<close>:
  the session is never asked, the result is the empty list and the context keeps its
  cursor, though every sample of the window is loud. An input of 1024 samples holds two
  complete windows, and the cursor stops at 512 with the second window dropped whole.\<close>

theorem exact_window_input_skipped:
  "int (length (replicate 512 (0.8::real))) div windowSize (cfg (demo_store 0)) = 1 \<and>
   window_outcomes probe_run (cfg (demo_store 0)) (replicate 512 0.8) 0
     (state (NewContext 64 (Some 0))) = [] \<and>
   Detect probe_run demo_store (Some (NewContext 64 (Some 0))) (replicate 512 0.8) =
     (Inr [], Some (NewContext 64 (Some 0)), demo_store) \<and>
   int (length (replicate 1024 (0.8::real))) div windowSize (cfg (demo_store 0)) = 2 \<and>
   Detect probe_run demo_store (Some (NewContext 64 (Some 0))) (replicate 1024 0.8) =
     (Inr [\<lparr>SpeechStartAt = 0, SpeechEndAt = 0\<rparr>],
      Some \<lparr>model = Some 0, state = replicate 256 1, ctx = replicate 64 0,
             currSample = 512, triggered = True, tempEnd = 0\<rparr>,
      demo_store)"
  by (simp add: bench_defs run_simps window_outcomes_done)

end
